theory Spec2Isabelle
  imports Complex_Main "HOL-Library.Sublist"
begin

section \<open>Python values, exceptions and string operations\<close>

text \<open>
  The three source files are Python scripts. Exceptions are values of \<open>py_error\<close>; a
  function that can raise returns \<open>py_error + 'a\<close> with \<open>Inl\<close> for the exception.
  Strings are \<open>char list\<close>s; the inputs are taken to be ASCII text, so a character is
  a byte.
\<close>

datatype py_error =
    IndexError
  | KeyError
  | ValueError
  | TypeError
  | AttributeError
  | UnboundLocalError
  | AssertionError
  | JSONDecodeError
  | WebDriverException

definition newline :: char where
  "newline = CHR 0x0A"

text \<open>\<^verbatim>\<open>str.isspace\<close> on one ASCII character: tab to carriage return, the four
  separators 28 to 31, and the space.\<close>

definition is_space :: "char \<Rightarrow> bool" where
  "is_space c = (let n = (of_char c :: nat) in (9 \<le> n \<and> n \<le> 13) \<or> (28 \<le> n \<and> n \<le> 32))"

text \<open>\<^verbatim>\<open>s.strip()\<close>: whitespace removed from both ends.\<close>

definition strip :: "string \<Rightarrow> string" where
  "strip s = rev (dropWhile is_space (rev (dropWhile is_space s)))"

text \<open>\<^verbatim>\<open>s.split(c)\<close> for a one-character separator: always at least one part.\<close>

fun cons_first :: "char \<Rightarrow> string list \<Rightarrow> string list" where
  "cons_first x [] = [[x]]"
| "cons_first x (p # ps) = (x # p) # ps"

fun split_chr :: "char \<Rightarrow> string \<Rightarrow> string list" where
  "split_chr c [] = [[]]"
| "split_chr c (x # xs) = (if x = c then [] # split_chr c xs else cons_first x (split_chr c xs))"

text \<open>\<^verbatim>\<open>s.split("||")\<close>: the separator is matched from the left, without overlap.\<close>

fun split_bars :: "string \<Rightarrow> string list" where
  "split_bars (a # b # xs) =
     (if a = CHR ''|'' \<and> b = CHR ''|'' then [] # split_bars xs
      else cons_first a (split_bars (b # xs)))"
| "split_bars xs = [xs]"

text \<open>\<^verbatim>\<open>sep.join(xs)\<close>.\<close>

fun py_join :: "string \<Rightarrow> string list \<Rightarrow> string" where
  "py_join sep [] = []"
| "py_join sep [x] = x"
| "py_join sep (x # y # ys) = x @ sep @ py_join sep (y # ys)"

text \<open>Decimal rendering of an integer, as \<^verbatim>\<open>"%s" % n\<close> gives it.\<close>

fun show_nat :: "nat \<Rightarrow> string" where
  "show_nat n =
     (if n < 10 then [char_of (48 + n)]
      else show_nat (n div 10) @ [char_of (48 + n mod 10)])"

definition show_int :: "int \<Rightarrow> string" where
  "show_int i = (if i < 0 then CHR ''-'' # show_nat (nat (- i)) else show_nat (nat i))"

section \<open>gen\_tsui\_c5.py: the TSUI exporter\<close>

text \<open>
  \<^verbatim>\<open>load_drug_bank\<close> builds a dictionary from drug names to codes, both strings
  (\<^verbatim>\<open>d[parts[0]] = parts[4]\<close>). A line with fewer than five \<^verbatim>\<open>||\<close>-separated
  parts raises IndexError. A file is the list of the lines \<^verbatim>\<open>readline\<close> returns; the
  empty string is end of file.
\<close>

type_synonym drug_bank = "string \<rightharpoonup> string"

fun load_drug_bank_from :: "drug_bank \<Rightarrow> string list \<Rightarrow> py_error + drug_bank" where
  "load_drug_bank_from d [] = Inr d"
| "load_drug_bank_from d (line # rest) =
     (if line = [] then Inr d
      else let parts = split_bars (strip line) in
        if length parts < 5 then Inl IndexError
        else load_drug_bank_from (d(parts ! 0 \<mapsto> parts ! 4)) rest)"

definition load_drug_bank :: "string list \<Rightarrow> py_error + drug_bank" where
  "load_drug_bank bank_lines = load_drug_bank_from Map.empty bank_lines"

text \<open>
  A looked-up code is the dictionary's string or the integer default \<^verbatim>\<open>-1\<close>.
\<close>

datatype pyval = PStr string | PInt int

text \<open>
  Modelled from the spec: \<^verbatim>\<open>utils.utils.get_dict\<close> is imported by the exporter but is
  not among the source files. The exporter calls \<^verbatim>\<open>get_dict(dname2code, drug, -1)\<close>
  and compares the result with \<^verbatim>\<open>-1\<close>: the dictionary's value for the key, or the
  default when the key is absent.
\<close>

definition get_dict :: "drug_bank \<Rightarrow> string \<Rightarrow> pyval \<Rightarrow> pyval" where
  "get_dict d k dflt = (case d k of None \<Rightarrow> dflt | Some v \<Rightarrow> PStr v)"

definition fmt_s :: "pyval \<Rightarrow> string" where
  "fmt_s v = (case v of PStr s \<Rightarrow> s | PInt i \<Rightarrow> show_int i)"

text \<open>
  The local variables of \<^verbatim>\<open>export_tsui\<close> that live across iterations, and the text
  written to the output file so far. \<open>drugs\<close> holds \<^verbatim>\<open>drug1, drug2\<close>, unbound until
  the first data line has been read.
\<close>

record tsui_state =
  p_drugpair :: string
  c_ses :: "string list"
  drugs :: "(string \<times> string) option"
  fout :: string

definition tsui_init :: tsui_state where
  "tsui_init = \<lparr>p_drugpair = [], c_ses = [], drugs = None, fout = []\<rparr>"

text \<open>Lines 29 to 31: \<^verbatim>\<open>parts[1]\<close> and \<^verbatim>\<open>parts[2]\<close> raise IndexError on a short line.\<close>

definition parse_parts :: "string \<Rightarrow> py_error + (string \<times> string \<times> string)" where
  "parse_parts line =
     (let parts = split_chr CHR '','' (strip line) in
      if length parts < 2 then Inl IndexError
      else if length parts < 3 then Inl IndexError
      else Inr (parts ! 0, parts ! 1, parts ! 2))"

definition d_pair_of :: "string \<Rightarrow> string \<Rightarrow> string" where
  "d_pair_of drug1 drug2 = drug1 @ ''_'' @ drug2"

text \<open>Lines 35 to 38 and 48 to 51: the prefix, written when neither code is \<^verbatim>\<open>-1\<close>.\<close>

definition write_prefix :: "drug_bank \<Rightarrow> string \<Rightarrow> string \<Rightarrow> string" where
  "write_prefix d drug1 drug2 =
     (let c1 = get_dict d drug1 (PInt (- 1));
          c2 = get_dict d drug2 (PInt (- 1))
      in if c1 \<noteq> PInt (- 1) \<and> c2 \<noteq> PInt (- 1)
         then drug1 @ ''|'' @ drug2 @ ''|'' @ fmt_s c1 @ ''|'' @ fmt_s c2 @ ''|''
         else [])"

text \<open>Lines 39 to 41 and 53 to 56, for a non-empty list: every element but the last
  followed by a comma, then the last and a newline.\<close>

definition write_ses :: "string list \<Rightarrow> string" where
  "write_ses ses = concat (map (\<lambda>se. se @ '','') (butlast ses)) @ last ses @ [newline]"

text \<open>
  The loop variable of line 39 is the variable \<^verbatim>\<open>se\<close> of line 31: after the loop over
  \<^verbatim>\<open>c_ses[:-1]\<close> it holds the last element of that slice, if there is one.
\<close>

definition se_after_flush :: "string list \<Rightarrow> string \<Rightarrow> string" where
  "se_after_flush ses se = (if butlast ses = [] then se else last (butlast ses))"

text \<open>One iteration of the loop, lines 29 to 45.\<close>

definition loop_body :: "drug_bank \<Rightarrow> string \<Rightarrow> tsui_state \<Rightarrow> py_error + tsui_state" where
  "loop_body d line s =
     (case parse_parts line of
        Inl e \<Rightarrow> Inl e
      | Inr (drug1, drug2, se) \<Rightarrow>
          let d_pair = d_pair_of drug1 drug2 in
          if d_pair \<noteq> p_drugpair s then
            (if c_ses s \<noteq> [] then
               Inr \<lparr>p_drugpair = d_pair,
                    c_ses = [se_after_flush (c_ses s) se],
                    drugs = Some (drug1, drug2),
                    fout = fout s @ write_prefix d drug1 drug2 @ write_ses (c_ses s)\<rparr>
             else
               Inr \<lparr>p_drugpair = d_pair, c_ses = [se],
                    drugs = Some (drug1, drug2), fout = fout s\<rparr>)
          else
            Inr (s\<lparr>c_ses := c_ses s @ [se], drugs := Some (drug1, drug2)\<rparr>))"

text \<open>The \<^verbatim>\<open>while True\<close> loop, lines 25 to 45.\<close>

fun read_loop :: "drug_bank \<Rightarrow> string list \<Rightarrow> tsui_state \<Rightarrow> py_error + tsui_state" where
  "read_loop d [] s = Inr s"
| "read_loop d (line # rest) s =
     (if line = [] then Inr s
      else case loop_body d line s of
             Inl e \<Rightarrow> Inl e
           | Inr s' \<Rightarrow> read_loop d rest s')"

text \<open>Lines 47 to 56: the last group. With no data line, \<^verbatim>\<open>drug1\<close> is unbound.\<close>

definition write_last :: "drug_bank \<Rightarrow> tsui_state \<Rightarrow> py_error + string" where
  "write_last d s =
     (case drugs s of
        None \<Rightarrow> Inl UnboundLocalError
      | Some (drug1, drug2) \<Rightarrow>
          let out = fout s @ write_prefix d drug1 drug2 in
          if \<not> length (c_ses s) > 0 then Inl AssertionError
          else Inr (out @ write_ses (c_ses s)))"

text \<open>Line 22 reads the header line and drops it.\<close>

definition skip_header :: "string list \<Rightarrow> string list" where
  "skip_header ls = (case ls of [] \<Rightarrow> [] | h # rest \<Rightarrow> if h = [] then [] else rest)"

text \<open>\<^verbatim>\<open>export_tsui\<close>, given the dictionary and the lines of the TSUI file; the result
  is the text of the output file.\<close>

definition export_tsui_with :: "drug_bank \<Rightarrow> string list \<Rightarrow> py_error + string" where
  "export_tsui_with d ls =
     (case read_loop d (skip_header ls) tsui_init of
        Inl e \<Rightarrow> Inl e
      | Inr s \<Rightarrow> write_last d s)"

definition export_tsui :: "string list \<Rightarrow> string list \<Rightarrow> py_error + string" where
  "export_tsui bank_lines ls =
     (case load_drug_bank bank_lines of
        Inl e \<Rightarrow> Inl e
      | Inr d \<Rightarrow> export_tsui_with d ls)"

text \<open>
  The statements about the exporter describe its input by groups: a drug pair and the
  side effects of its consecutive lines. \<open>group_rows\<close> gives the parsed lines of a group;
  \<open>groups_ok\<close> says that every group has a side effect and that the key
  \<^verbatim>\<open>drug1_drug2\<close> of each group differs from the key before it.
\<close>

type_synonym drug_group = "(string \<times> string) \<times> string list"

definition group_rows :: "drug_group \<Rightarrow> (string \<times> string \<times> string) list" where
  "group_rows g = map (\<lambda>se. (fst (fst g), snd (fst g), se)) (snd g)"

fun groups_ok :: "string \<Rightarrow> drug_group list \<Rightarrow> bool" where
  "groups_ok key [] = True"
| "groups_ok key ((q, ses) # gs) =
     (d_pair_of (fst q) (snd q) \<noteq> key \<and> ses \<noteq> [] \<and> groups_ok (d_pair_of (fst q) (snd q)) gs)"

text \<open>
  The output as the claims describe it: each group's side effects are flushed with the
  prefix of the pair that follows, the last group's with its own. \<open>accumulated\<close> lists
  the contents of \<^verbatim>\<open>c_ses\<close> at each flush.
\<close>

fun flushes_as_claimed :: "drug_bank \<Rightarrow> string \<times> string \<Rightarrow> string list \<Rightarrow> drug_group list \<Rightarrow> string" where
  "flushes_as_claimed d p acc [] = write_prefix d (fst p) (snd p) @ write_ses acc"
| "flushes_as_claimed d p acc ((q, ses) # gs) =
     write_prefix d (fst q) (snd q) @ write_ses acc
       @ flushes_as_claimed d q (se_after_flush acc (hd ses) # tl ses) gs"

fun accumulated :: "string list \<Rightarrow> drug_group list \<Rightarrow> string list list" where
  "accumulated acc [] = [acc]"
| "accumulated acc ((q, ses) # gs) = acc # accumulated (se_after_flush acc (hd ses) # tl ses) gs"

section \<open>models/hyperconv.py: the HyperConv layer\<close>

text \<open>
  A tensor of node features is the list of its rows, of type \<open>'a\<close>; a row of the output
  has type \<open>'b\<close>. The layer's \<^verbatim>\<open>torch.nn.Linear\<close> transforms belong to the framework:
  each is taken as a function from an input row to an output row, applied to a batch row by
  row. \<^verbatim>\<open>edge_index\<close>, a \<open>2 \<times> E\<close> integer tensor, is the list of its columns
  \<open>(edge_index[0, e], edge_index[1, e])\<close>. The part of \<^verbatim>\<open>update\<close> that runs when
  \<^verbatim>\<open>skip_last_weight\<close> is off (concatenation, the weight product, the bias and the
  normalisation, lines 119 to 130) is the field \<open>dense_update\<close>.
\<close>

record ('a, 'b) hyper_conv =
  n_type :: nat
  transforms :: "('a \<Rightarrow> 'b) list"
  skip_last_weight :: bool
  dense_update :: "'a list \<Rightarrow> 'b option list \<Rightarrow> 'b option list"

text \<open>\<^verbatim>\<open>__init__\<close>: one transform per edge type (line 51). The defaults are
  \<^verbatim>\<open>n_type=5\<close> and \<^verbatim>\<open>skip_last_weight=True\<close>.\<close>

definition HyperConv_init ::
  "nat \<Rightarrow> bool \<Rightarrow> (nat \<Rightarrow> 'a \<Rightarrow> 'b) \<Rightarrow> ('a list \<Rightarrow> 'b option list \<Rightarrow> 'b option list)
     \<Rightarrow> ('a, 'b) hyper_conv" where
  "HyperConv_init n skip make_linear dense =
     \<lparr>n_type = n, transforms = map make_linear [0..<n], skip_last_weight = skip,
      dense_update = dense\<rparr>"

text \<open>Indexing the rows of a tensor by an integer: a negative index counts from the end,
  an index out of range raises IndexError.\<close>

definition valid_row_index :: "'a list \<Rightarrow> int \<Rightarrow> bool" where
  "valid_row_index x i = (- int (length x) \<le> i \<and> i < int (length x))"

definition row_at :: "'a list \<Rightarrow> int \<Rightarrow> 'a" where
  "row_at x i = x ! nat (if i < 0 then i + int (length x) else i)"

definition index_row :: "'a list \<Rightarrow> int \<Rightarrow> py_error + 'a" where
  "index_row x i = (if valid_row_index x i then Inr (row_at x i) else Inl IndexError)"

text \<open>Indexing by a tensor of indices fails as soon as one of them is out of range.\<close>

fun map_err :: "('a \<Rightarrow> py_error + 'b) \<Rightarrow> 'a list \<Rightarrow> py_error + 'b list" where
  "map_err f [] = Inr []"
| "map_err f (a # as) =
     (case f a of
        Inl e \<Rightarrow> Inl e
      | Inr b \<Rightarrow> (case map_err f as of Inl e \<Rightarrow> Inl e | Inr bs \<Rightarrow> Inr (b # bs)))"

text \<open>Line 147, \<^verbatim>\<open>torch.nonzero(edge_types == i)\<close>: the positions holding type \<open>i\<close>,
  in increasing order.\<close>

definition nonzero_eq :: "int list \<Rightarrow> int \<Rightarrow> nat list" where
  "nonzero_eq edge_types i = filter (\<lambda>e. edge_types ! e = i) [0..<length edge_types]"

text \<open>Line 148, the inner index \<^verbatim>\<open>source_ids[ids]\<close>.\<close>

definition gather_sources :: "int list \<Rightarrow> nat list \<Rightarrow> py_error + int list" where
  "gather_sources source_ids ids =
     map_err (\<lambda>e. if e < length source_ids then Inr (source_ids ! e) else Inl IndexError) ids"

text \<open>Line 150, \<^verbatim>\<open>x_out[ids] = x_out_v\<close>. A row of \<^verbatim>\<open>torch.empty\<close> that was never
  assigned holds no defined value: it is \<open>None\<close>.\<close>

fun assign_rows :: "'b option list \<Rightarrow> nat list \<Rightarrow> 'b list \<Rightarrow> py_error + 'b option list" where
  "assign_rows x_out [] vs = Inr x_out"
| "assign_rows x_out (e # es) [] = Inl ValueError"
| "assign_rows x_out (e # es) (v # vs) =
     (if e < length x_out then assign_rows (x_out[e := Some v]) es vs else Inl IndexError)"

text \<open>The body of the loop of \<^verbatim>\<open>__collect__\<close>, lines 147 to 150, for one type.\<close>

definition collect_type ::
  "('a, 'b) hyper_conv \<Rightarrow> (int \<times> int) list \<Rightarrow> int list \<Rightarrow> 'a list \<Rightarrow> nat \<Rightarrow> 'b option list
     \<Rightarrow> py_error + 'b option list" where
  "collect_type L edge_index edge_types x i x_out =
     (let source_ids = map fst edge_index;
          ids = nonzero_eq edge_types (int i)
      in case gather_sources source_ids ids of
           Inl e \<Rightarrow> Inl e
         | Inr srcs \<Rightarrow>
             (case map_err (index_row x) srcs of
                Inl e \<Rightarrow> Inl e
              | Inr x_ids \<Rightarrow>
                  if i < length (transforms L)
                  then assign_rows x_out ids (map (transforms L ! i) x_ids)
                  else Inl IndexError))"

fun collect_loop ::
  "('a, 'b) hyper_conv \<Rightarrow> (int \<times> int) list \<Rightarrow> int list \<Rightarrow> 'a list \<Rightarrow> nat list \<Rightarrow> 'b option list
     \<Rightarrow> py_error + 'b option list" where
  "collect_loop L edge_index edge_types x [] x_out = Inr x_out"
| "collect_loop L edge_index edge_types x (i # is) x_out =
     (case collect_type L edge_index edge_types x i x_out of
        Inl e \<Rightarrow> Inl e
      | Inr x_out' \<Rightarrow> collect_loop L edge_index edge_types x is x_out')"

text \<open>\<^verbatim>\<open>__collect__\<close>, lines 143 to 151.\<close>

definition collect ::
  "('a, 'b) hyper_conv \<Rightarrow> (int \<times> int) list \<Rightarrow> int list \<Rightarrow> 'a list \<Rightarrow> py_error + 'b option list" where
  "collect L edge_index edge_types x =
     (let n_out = length edge_index;
          x_out = replicate n_out None
      in collect_loop L edge_index edge_types x [0..<n_type L] x_out)"

definition message :: "'b option list \<Rightarrow> 'b option list" where
  "message x_j = x_j"

text \<open>The mean of a list of rows, in exact arithmetic over a real vector space.\<close>

definition mean_rows :: "'b list \<Rightarrow> 'b::real_vector" where
  "mean_rows rows = (1 / real (length rows)) *\<^sub>R sum_list rows"

text \<open>
  Modelled from the spec: \<^verbatim>\<open>MessagePassing.aggregate\<close> is the framework's method and is
  not among the source files; the layer is built with \<^verbatim>\<open>aggr='mean'\<close> (line 41) and
  calls it with the destination indices \<^verbatim>\<open>edge_index[1, :]\<close> (line 169). The spec
  says the layer "scatters results back by destination index, and mean-aggregates": row
  \<open>v\<close> of the result is the mean of the input rows whose index is \<open>v\<close>, for \<open>v\<close> up
  to the largest index. A row that averages an unassigned input is itself undefined.
  Rounding of floating-point numbers is not modelled.
\<close>

definition aggregate_mean :: "'b option list \<Rightarrow> int list \<Rightarrow> py_error + ('b::real_vector) option list" where
  "aggregate_mean inputs index =
     (if length inputs \<noteq> length index then Inl ValueError
      else if list_ex (\<lambda>j. j < 0) index then Inl IndexError
      else let dim_size = (if index = [] then 0 else nat (foldr max index 0) + 1) in
        Inr (map (\<lambda>v.
               let rows = map (\<lambda>e. inputs ! e) (filter (\<lambda>e. index ! e = int v) [0..<length index])
               in if list_ex (\<lambda>r. r = None) rows then None else Some (mean_rows (map the rows)))
             [0..<dim_size]))"

text \<open>\<^verbatim>\<open>update\<close>, lines 116 to 130.\<close>

definition update :: "('a, 'b) hyper_conv \<Rightarrow> 'b option list \<Rightarrow> 'a list \<Rightarrow> 'b option list" where
  "update L aggr_out x = (if skip_last_weight L then aggr_out else dense_update L x aggr_out)"

text \<open>\<^verbatim>\<open>propagate\<close>, lines 165 to 172, and \<^verbatim>\<open>forward\<close>, line 93. The framework's
  \<^verbatim>\<open>__get_mp_type__\<close> answers \<^verbatim>\<open>'edge_index'\<close> for an index tensor, so the
  assertion of line 166 holds.\<close>

definition propagate ::
  "('a, 'b::real_vector) hyper_conv \<Rightarrow> (int \<times> int) list \<Rightarrow> int list \<Rightarrow> 'a list \<Rightarrow> py_error + 'b option list" where
  "propagate L edge_index edge_types x =
     (case collect L edge_index edge_types x of
        Inl e \<Rightarrow> Inl e
      | Inr x_out \<Rightarrow>
          let out = message x_out in
          (case aggregate_mean out (map snd edge_index) of
             Inl e \<Rightarrow> Inl e
           | Inr out' \<Rightarrow> Inr (update L out' x)))"

definition forward ::
  "('a, 'b::real_vector) hyper_conv \<Rightarrow> 'a list \<Rightarrow> (int \<times> int) list \<Rightarrow> int list \<Rightarrow> py_error + 'b option list" where
  "forward L x edge_index edge_types = propagate L edge_index edge_types x"

text \<open>The documented range of an edge type: \<open>0\<close> to \<open>n_type - 1\<close>.\<close>

definition type_in_range :: "('a, 'b) hyper_conv \<Rightarrow> int \<Rightarrow> bool" where
  "type_in_range L t = (0 \<le> t \<and> t < int (n_type L))"

section \<open>postProcessing/drugsComMatching.py: the drugs.com scraping scripts\<close>

text \<open>
  The scripts drive a browser, fetch URLs and parse JSON and HTML with third-party
  libraries. Those are taken as parameters: a function that answers the \<open>n\<close>-th request
  for a URL with a page or an exception, and parsers that map a response to the parts the
  scripts read. \<^verbatim>\<open>utils.load_obj\<close> is the pickled dictionary or an exception;
  \<^verbatim>\<open>utils.save_obj\<close> and the writes to the output files are taken to succeed.
\<close>

text \<open>\<^verbatim>\<open>s.lower()\<close> on ASCII text.\<close>

definition lower_chr :: "char \<Rightarrow> char" where
  "lower_chr c = (let n = (of_char c :: nat) in if 65 \<le> n \<and> n \<le> 90 then char_of (n + 32) else c)"

definition lower :: "string \<Rightarrow> string" where
  "lower s = map lower_chr s"

text \<open>\<^verbatim>\<open>v1 > v2\<close> on strings: lexicographic, by character code.\<close>

fun str_gt :: "string \<Rightarrow> string \<Rightarrow> bool" where
  "str_gt [] bs = False"
| "str_gt (a # as) [] = True"
| "str_gt (a # as) (b # bs) =
     (if a = b then str_gt as bs else (of_char b :: nat) < of_char a)"

text \<open>\<^verbatim>\<open>sub in s\<close> on strings.\<close>

fun contains :: "string \<Rightarrow> string \<Rightarrow> bool" where
  "contains sub [] = (sub = [])"
| "contains sub (c # cs) = (prefix sub (c # cs) \<or> contains sub cs)"

text \<open>\<^verbatim>\<open>s.index(c)\<close>: the first position of the character, or ValueError.\<close>

fun index_of :: "char \<Rightarrow> string \<Rightarrow> py_error + nat" where
  "index_of c [] = Inl ValueError"
| "index_of c (x # xs) =
     (if x = c then Inr 0
      else case index_of c xs of Inl e \<Rightarrow> Inl e | Inr i \<Rightarrow> Inr (Suc i))"

text \<open>\<^verbatim>\<open>s[a:b]\<close> for non-negative bounds, and \<^verbatim>\<open>s[1:-1]\<close>.\<close>

definition slice :: "string \<Rightarrow> nat \<Rightarrow> nat \<Rightarrow> string" where
  "slice s a b = drop a (take b s)"

definition strip_ends :: "string \<Rightarrow> string" where
  "strip_ends s = butlast (tl s)"

text \<open>\<^verbatim>\<open>s.replace("\n", ". ")\<close>.\<close>

definition replace_newlines :: "string \<Rightarrow> string" where
  "replace_newlines s = concat (map (\<lambda>c. if c = newline then ''. '' else [c]) s)"

text \<open>A Python dictionary keeps its keys in insertion order; assigning to a key that is
  present replaces the value in place.\<close>

type_synonym 'v py_dict = "(string \<times> 'v) list"

fun dict_set :: "'v py_dict \<Rightarrow> string \<Rightarrow> 'v \<Rightarrow> 'v py_dict" where
  "dict_set [] k v = [(k, v)]"
| "dict_set ((k', v') # d) k v = (if k' = k then (k, v) # d else (k', v') # dict_set d k v)"

definition dict_has :: "'v py_dict \<Rightarrow> string \<Rightarrow> bool" where
  "dict_has d k = (k \<in> set (map fst d))"

text \<open>What a script does to the outside world, in order: a request sent to drugs.com,
  \<^verbatim>\<open>time.sleep\<close>, \<^verbatim>\<open>utils.save_obj\<close>, and the \<^verbatim>\<open>print(e)\<close> of a handler.\<close>

datatype event =
    Request string
  | Sleep nat
  | Saved "string py_dict"
  | Printed py_error

text \<open>The dictionary of responses being filled, and the events so far.\<close>

record scrape_state =
  store :: "string py_dict"
  events :: "event list"

text \<open>The requests are numbered in the order they are sent.\<close>

definition requests_made :: "scrape_state \<Rightarrow> nat" where
  "requests_made s = length (filter (\<lambda>ev. case ev of Request u \<Rightarrow> True | _ \<Rightarrow> False) (events s))"

definition log_event :: "event \<Rightarrow> scrape_state \<Rightarrow> scrape_state" where
  "log_event ev s = s\<lparr>events := events s @ [ev]\<rparr>"

definition Pref :: "string \<Rightarrow> string" where
  "Pref drugName =
     ''https://www.drugs.com/api/autocomplete/?id=livesearch-interaction&s='' @ drugName
       @ ''&data-autocomplete=interaction''"

definition INTER_PREF :: string where
  "INTER_PREF = ''https://www.drugs.com/interactions-check.php?drug_list=''"

text \<open>\<^verbatim>\<open>loadDrugList\<close>, lines 29 to 35, from the lines of the name file.\<close>

fun loadDrugList_from :: "string list \<Rightarrow> py_error + string list" where
  "loadDrugList_from [] = Inr []"
| "loadDrugList_from (line # rest) =
     (let ss = split_chr (CHR 0x09) (strip line) in
      if length ss < 2 then Inl IndexError
      else case loadDrugList_from rest of
             Inl e \<Rightarrow> Inl e
           | Inr drugList \<Rightarrow> Inr (lower (ss ! 1) # drugList))"

definition getRetrieveDrugURL :: "string \<Rightarrow> string" where
  "getRetrieveDrugURL drugName = Pref drugName"

text \<open>Lines 82 to 84 and 215 to 217: a save whenever the dictionary's size is a multiple
  of ten.\<close>

definition save_if_tenth :: "scrape_state \<Rightarrow> scrape_state" where
  "save_if_tenth s = (if length (store s) mod 10 = 0 then log_event (Saved (store s)) s else s)"

text \<open>The loop of \<^verbatim>\<open>downloadDrugWebId\<close>, lines 74 to 84. \<^verbatim>\<open>getTextURL\<close> is not in a
  \<^verbatim>\<open>try\<close>: its exception ends the function.\<close>

fun download_loop ::
  "(nat \<Rightarrow> string \<Rightarrow> py_error + string) \<Rightarrow> string list \<Rightarrow> scrape_state
     \<Rightarrow> scrape_state \<times> py_error option" where
  "download_loop getTextURL [] s = (s, None)"
| "download_loop getTextURL (drug # rest) s =
     (if dict_has (store s) drug then download_loop getTextURL rest s
      else
        let urlx = getRetrieveDrugURL drug;
            s1 = log_event (Request urlx) s
        in case getTextURL (requests_made s) urlx of
             Inl e \<Rightarrow> (s1, Some e)
           | Inr txt \<Rightarrow>
               let s2 = s1\<lparr>store := dict_set (store s1) drug txt\<rparr>;
                   s3 = log_event (Sleep 3) s2
               in download_loop getTextURL rest (save_if_tenth s3))"

text \<open>\<^verbatim>\<open>downloadDrugWebId\<close>, lines 68 to 86: the final state, and the exception if one
  was raised.\<close>

definition downloadDrugWebId ::
  "(nat \<Rightarrow> string \<Rightarrow> py_error + string) \<Rightarrow> string list \<Rightarrow> py_error + string py_dict
     \<Rightarrow> scrape_state \<times> py_error option" where
  "downloadDrugWebId getTextURL name_lines load_obj =
     (case loadDrugList_from name_lines of
        Inl e \<Rightarrow> (\<lparr>store = [], events = []\<rparr>, Some e)
      | Inr drugList \<Rightarrow>
          let dDrugName2Re = (case load_obj of Inl e \<Rightarrow> [] | Inr d \<Rightarrow> d) in
          (case download_loop getTextURL drugList \<lparr>store = dDrugName2Re, events = []\<rparr> of
             (s, Some e) \<Rightarrow> (s, Some e)
           | (s, None) \<Rightarrow> (log_event (Saved (store s)) s, None)))"

text \<open>A decoded JSON value, and Python's subscripts on it: \<^verbatim>\<open>j["key"]\<close> and
  \<^verbatim>\<open>j[0]\<close>.\<close>

datatype json =
    JNull
  | JBool bool
  | JInt int
  | JStr string
  | JArr "json list"
  | JObj "(string \<times> json) list"

fun json_key :: "json \<Rightarrow> string \<Rightarrow> py_error + json" where
  "json_key (JObj kvs) k = (case map_of kvs k of None \<Rightarrow> Inl KeyError | Some v \<Rightarrow> Inr v)"
| "json_key j k = Inl TypeError"

fun json_idx :: "json \<Rightarrow> nat \<Rightarrow> py_error + json" where
  "json_idx (JArr xs) i = (if i < length xs then Inr (xs ! i) else Inl IndexError)"
| "json_idx (JObj kvs) i = Inl KeyError"
| "json_idx (JStr s) i = (if i < length s then Inr (JStr [s ! i]) else Inl IndexError)"
| "json_idx j i = Inl TypeError"

text \<open>
  The libraries \<^verbatim>\<open>parsex\<close> calls: \<^verbatim>\<open>json.loads\<close>; \<^verbatim>\<open>"%s" % value\<close> on a decoded
  value; and \<^verbatim>\<open>BeautifulSoup(v, "html.parser").find('a', {"class": "ls-item"})\<close>, which
  gives the attributes of the first such anchor, or \<^verbatim>\<open>None\<close>.
\<close>

record parsers =
  json_loads :: "string \<Rightarrow> py_error + json"
  fmt_json :: "json \<Rightarrow> string"
  find_ls_item :: "string \<Rightarrow> (string \<times> string) list option"

text \<open>The literal \<^verbatim>\<open>{"categories":\<close> of line 106.\<close>

definition categories_prefix :: string where
  "categories_prefix = CHR ''{'' # CHR 0x22 # ''categories'' @ [CHR 0x22, CHR '':'']"

definition bind_err :: "py_error + 'a \<Rightarrow> ('a \<Rightarrow> py_error + 'b) \<Rightarrow> py_error + 'b" where
  "bind_err r f = (case r of Inl e \<Rightarrow> Inl e | Inr a \<Rightarrow> f a)"

text \<open>Lines 107 to 117, the JSON branch: the two identifiers, or the exception.\<close>

definition rex_json :: "parsers \<Rightarrow> string \<Rightarrow> py_error + string list" where
  "rex_json P v =
     bind_err (json_loads P v) (\<lambda>jsonObj.
     bind_err (json_key jsonObj ''categories'') (\<lambda>info1.
     bind_err (json_idx info1 0) (\<lambda>c0.
     bind_err (json_key c0 ''results'') (\<lambda>rs.
     bind_err (json_idx rs 0) (\<lambda>info1.
     bind_err (json_key info1 ''ddc_id'') (\<lambda>ddc.
     bind_err (json_key info1 ''brand_name_id'') (\<lambda>b.
       Inr ([] @ [fmt_json P ddc] @ [fmt_json P b]))))))))"

text \<open>Lines 122 to 133, the HTML branch. \<^verbatim>\<open>c['onclick']\<close> raises TypeError when no
  anchor was found and KeyError when the anchor has no such attribute.\<close>

definition rex_html :: "parsers \<Rightarrow> string \<Rightarrow> py_error + string list" where
  "rex_html P v =
     (case find_ls_item P v of
        None \<Rightarrow> Inl TypeError
      | Some attrs \<Rightarrow>
          (case map_of attrs ''onclick'' of
             None \<Rightarrow> Inl KeyError
           | Some txt \<Rightarrow>
               bind_err (index_of CHR ''('' txt) (\<lambda>i1.
               bind_err (index_of CHR '')'' txt) (\<lambda>i2.
                 let re = slice txt (i1 + 1) i2;
                     parts = split_chr CHR '','' re
                 in Inr (map (\<lambda>part. strip_ends (strip part)) parts)))))"

text \<open>The body of the \<^verbatim>\<open>try\<close> of lines 105 to 135, and the \<^verbatim>\<open>except: pass\<close> around
  it: on an exception \<^verbatim>\<open>rex\<close> is still the empty list of line 103.\<close>

definition rex_try :: "parsers \<Rightarrow> string \<Rightarrow> py_error + string list" where
  "rex_try P v = (if prefix categories_prefix v then rex_json P v else rex_html P v)"

definition rex_of :: "parsers \<Rightarrow> string \<Rightarrow> string list" where
  "rex_of P v = (case rex_try P v of Inl e \<Rightarrow> [] | Inr rex \<Rightarrow> rex)"

text \<open>Lines 138 and 139, and the loop over the stored responses.\<close>

definition parsex_item :: "parsers \<Rightarrow> string \<times> string \<Rightarrow> string \<Rightarrow> string" where
  "parsex_item P kv out =
     (let rex = rex_of P (snd kv) in
      if length rex > 0 then out @ fst kv @ ''||'' @ py_join '','' rex @ [newline] else out)"

fun parsex_loop :: "parsers \<Rightarrow> (string \<times> string) list \<Rightarrow> string \<Rightarrow> string" where
  "parsex_loop P [] out = out"
| "parsex_loop P (kv # rest) out = parsex_loop P rest (parsex_item P kv out)"

definition parsex :: "parsers \<Rightarrow> py_error + string py_dict \<Rightarrow> py_error + string" where
  "parsex P load_obj = (case load_obj of Inl e \<Rightarrow> Inl e | Inr d \<Rightarrow> Inr (parsex_loop P d []))"

text \<open>Lines 167 to 174 of \<^verbatim>\<open>getInteractions\<close>: the table from drug names to the
  drugs.com identifiers \<^verbatim>\<open>k1-k2\<close>. A malformed line raises IndexError.\<close>

fun load_web_ids :: "string py_dict \<Rightarrow> string list \<Rightarrow> py_error + string py_dict" where
  "load_web_ids d [] = Inr d"
| "load_web_ids d (line # rest) =
     (let parts = split_bars (strip line) in
      if length parts < 2 then Inl IndexError
      else let drugName = parts ! 0;
               info = split_chr CHR '','' (parts ! 1)
           in if length info < 2 then Inl IndexError
              else load_web_ids (dict_set d drugName (info ! 0 @ ''-'' @ info ! 1)) rest)"

definition srt :: "string \<Rightarrow> string \<Rightarrow> string \<times> string" where
  "srt v1 v2 = (if str_gt v1 v2 then (v2, v1) else (v1, v2))"

definition dict_get :: "'v py_dict \<Rightarrow> string \<Rightarrow> py_error + 'v" where
  "dict_get d k = (case map_of d k of None \<Rightarrow> Inl KeyError | Some v \<Rightarrow> Inr v)"

text \<open>The body of the \<^verbatim>\<open>try\<close> of lines 194 to 217: the state reached, and the
  exception if one was raised.\<close>

definition interaction_try ::
  "(nat \<Rightarrow> string \<Rightarrow> py_error + string) \<Rightarrow> string py_dict \<Rightarrow> string py_dict \<Rightarrow> string
     \<Rightarrow> scrape_state \<Rightarrow> scrape_state \<times> py_error option" where
  "interaction_try browser dDrugName2WebId currentRe line0 s =
     (let line = lower (strip line0);
          parts = split_chr CHR '','' line
      in if length parts < 2 then (s, Some IndexError)
         else
           let (d1, d2) = srt (strip (parts ! 0)) (strip (parts ! 1)) in
           if \<not> dict_has dDrugName2WebId d1 \<or> \<not> dict_has dDrugName2WebId d2 then (s, None)
           else
             let p = d1 @ '','' @ d2 in
             if dict_has currentRe p then (s, None)
             else
               (case dict_get dDrugName2WebId d1 of
                  Inl e \<Rightarrow> (s, Some e)
                | Inr w1 \<Rightarrow>
                    (case dict_get dDrugName2WebId d2 of
                       Inl e \<Rightarrow> (s, Some e)
                     | Inr w2 \<Rightarrow>
                         let pair = w1 @ '','' @ w2;
                             urlx = INTER_PREF @ pair;
                             s1 = log_event (Request urlx) s
                         in (case browser (requests_made s) urlx of
                               Inl e \<Rightarrow> (s1, Some e)
                             | Inr html \<Rightarrow>
                                 let s2 = s1\<lparr>store := dict_set (store s1) p html\<rparr>;
                                     s3 = log_event (Sleep 4) s2
                                 in (save_if_tenth s3, None)))))"

text \<open>One iteration: \<^verbatim>\<open>except Exception as e: print(e); continue\<close>.\<close>

definition interaction_step ::
  "(nat \<Rightarrow> string \<Rightarrow> py_error + string) \<Rightarrow> string py_dict \<Rightarrow> string py_dict \<Rightarrow> string
     \<Rightarrow> scrape_state \<Rightarrow> scrape_state" where
  "interaction_step browser dDrugName2WebId currentRe line s =
     (case interaction_try browser dDrugName2WebId currentRe line s of
        (s', None) \<Rightarrow> s'
      | (s', Some e) \<Rightarrow> log_event (Printed e) s')"

text \<open>The loop of lines 192 to 220, and \<^verbatim>\<open>getInteractions\<close>. \<^verbatim>\<open>browser n url\<close> stands
  for lines 210 to 212 on the \<open>n\<close>-th request: the page is loaded and the inner HTML of
  its body is read, or one of the three calls raises.\<close>

fun interaction_loop ::
  "(nat \<Rightarrow> string \<Rightarrow> py_error + string) \<Rightarrow> string py_dict \<Rightarrow> string py_dict \<Rightarrow> string list
     \<Rightarrow> scrape_state \<Rightarrow> scrape_state" where
  "interaction_loop browser dDrugName2WebId currentRe [] s = s"
| "interaction_loop browser dDrugName2WebId currentRe (line # rest) s =
     interaction_loop browser dDrugName2WebId currentRe rest
       (interaction_step browser dDrugName2WebId currentRe line s)"

definition getInteractions ::
  "(nat \<Rightarrow> string \<Rightarrow> py_error + string) \<Rightarrow> py_error + string py_dict \<Rightarrow> string list \<Rightarrow> string list
     \<Rightarrow> py_error + scrape_state" where
  "getInteractions browser load_obj web_id_lines prediction_lines =
     (let dDrugPairToRe = (case load_obj of Inl e \<Rightarrow> [] | Inr d \<Rightarrow> d) in
      case load_web_ids [] web_id_lines of
        Inl e \<Rightarrow> Inl e
      | Inr dDrugName2WebId \<Rightarrow>
          let currentRe = (case load_obj of Inl e \<Rightarrow> [] | Inr d \<Rightarrow> d);
              s = interaction_loop browser dDrugName2WebId currentRe prediction_lines
                    \<lparr>store = dDrugPairToRe, events = []\<rparr>
          in Inr (log_event (Saved (store s)) s))"

text \<open>The marker of line 240, as the bytes of the source file.\<close>

definition no_interaction_marker :: string where
  "no_interaction_marker =
     ''No drug '' @ [CHR 0xC3, CHR 0xA2, CHR 0xC2, CHR 0xAC, CHR 0xC5, CHR 0x92]
       @ '' drug interactions were found''"

text \<open>What \<^verbatim>\<open>BeautifulSoup(v, "html.parser").find("div", {'class':
  'interactions-reference-wrapper'})\<close> gives: \<^verbatim>\<open>None\<close>, or an element with its text and
  the texts of its paragraphs. Then the two output files.\<close>

record wrapper_div =
  div_text :: string
  paragraphs :: "string list"

record match_files =
  fMatching :: string
  fnoMatching :: string

text \<open>Lines 239 to 246: the first \<^verbatim>\<open>try\<close>. With no wrapper element, \<^verbatim>\<open>div\<close> is
  \<^verbatim>\<open>None\<close> and \<^verbatim>\<open>div.text\<close> raises AttributeError.\<close>

definition no_match_try :: "wrapper_div option \<Rightarrow> string \<Rightarrow> match_files \<Rightarrow> (match_files \<times> bool) \<times> py_error option" where
  "no_match_try dv k fs =
     (case dv of
        None \<Rightarrow> ((fs, False), Some AttributeError)
      | Some w \<Rightarrow>
          if contains no_interaction_marker (div_text w)
          then ((fs\<lparr>fnoMatching := fnoMatching fs @ k @ [newline]\<rparr>, True), None)
          else ((fs, False), None))"

text \<open>Lines 249 to 258: the second \<^verbatim>\<open>try\<close>.\<close>

definition matching_try :: "wrapper_div option \<Rightarrow> string \<Rightarrow> match_files \<Rightarrow> match_files \<times> py_error option" where
  "matching_try dv k fs =
     (case dv of
        None \<Rightarrow> (fs, Some AttributeError)
      | Some w \<Rightarrow>
          let pr = paragraphs w in
          (fs\<lparr>fMatching := fMatching fs @ k @ ''||''
                 @ replace_newlines (py_join ''. '' pr) @ [newline]\<rparr>, None))"

text \<open>One iteration of the loop of \<^verbatim>\<open>extractInteraction\<close>, lines 235 to 258: both
  handlers print and go on.\<close>

definition extract_item ::
  "(string \<Rightarrow> wrapper_div option) \<Rightarrow> string \<times> string \<Rightarrow> match_files \<Rightarrow> match_files" where
  "extract_item find_wrapper kv fs =
     (let dv = find_wrapper (snd kv);
          ((fs1, isNoMatch), err1) = no_match_try dv (fst kv) fs
      in if \<not> isNoMatch then fst (matching_try dv (fst kv) fs1) else fs1)"

fun extract_loop ::
  "(string \<Rightarrow> wrapper_div option) \<Rightarrow> (string \<times> string) list \<Rightarrow> match_files \<Rightarrow> match_files" where
  "extract_loop find_wrapper [] fs = fs"
| "extract_loop find_wrapper (kv # rest) fs =
     extract_loop find_wrapper rest (extract_item find_wrapper kv fs)"

definition extractInteraction ::
  "(string \<Rightarrow> wrapper_div option) \<Rightarrow> py_error + string py_dict \<Rightarrow> py_error + match_files" where
  "extractInteraction find_wrapper load_obj =
     (case load_obj of
        Inl e \<Rightarrow> Inl e
      | Inr d \<Rightarrow> Inr (extract_loop find_wrapper d \<lparr>fMatching = [], fnoMatching = []\<rparr>))"

text \<open>
  Rate limiting, read off the events. \<open>rate_scan n fr pending es\<close> walks the events:
  \<open>pending\<close> says that a request has been sent and nothing has separated it from the
  next one yet. A sleep of \<open>n\<close> seconds separates; when \<open>fr\<close> is set, so does the
  handler of a failed request. The result is \<open>None\<close> when two requests follow each
  other unseparated.
\<close>

fun rate_scan :: "nat \<Rightarrow> bool \<Rightarrow> bool \<Rightarrow> event list \<Rightarrow> bool option" where
  "rate_scan n fr pending [] = Some pending"
| "rate_scan n fr pending (Request u # es) =
     (if pending then None else rate_scan n fr True es)"
| "rate_scan n fr pending (Sleep k # es) = rate_scan n fr (pending \<and> k \<noteq> n) es"
| "rate_scan n fr pending (Printed e # es) = rate_scan n fr (pending \<and> \<not> fr) es"
| "rate_scan n fr pending (Saved d # es) = rate_scan n fr pending es"

definition sleep_separates :: "nat \<Rightarrow> event list \<Rightarrow> bool" where
  "sleep_separates n es = (rate_scan n False False es \<noteq> None)"

definition sleep_or_failure_separates :: "nat \<Rightarrow> event list \<Rightarrow> bool" where
  "sleep_or_failure_separates n es = (rate_scan n True False es \<noteq> None)"

text \<open>
  The same events read against the browser: \<open>answered_scan browser n k es\<close> numbers the
  requests from \<open>k\<close> and asks of each one what the browser did with it. A request that
  was answered is followed at once by a sleep of \<open>n\<close> seconds; a request that raised is
  followed at once by the handler's print of that exception; a sleep stands nowhere else.
  The result is the number of requests seen, or \<open>None\<close> when an event is out of place.
\<close>

fun answered_scan ::
  "(nat \<Rightarrow> string \<Rightarrow> py_error + string) \<Rightarrow> nat \<Rightarrow> nat \<Rightarrow> event list \<Rightarrow> nat option" where
  "answered_scan browser n k [] = Some k"
| "answered_scan browser n k (Request u # Sleep m # es) =
     (case browser k u of
        Inl e \<Rightarrow> None
      | Inr page \<Rightarrow> if m = n then answered_scan browser n (Suc k) es else None)"
| "answered_scan browser n k (Request u # Printed e # es) =
     (case browser k u of
        Inl e' \<Rightarrow> if e' = e then answered_scan browser n (Suc k) es else None
      | Inr page \<Rightarrow> None)"
| "answered_scan browser n k (Request u # es) = None"
| "answered_scan browser n k (Sleep m # es) = None"
| "answered_scan browser n k (Printed e # es) = answered_scan browser n k es"
| "answered_scan browser n k (Saved d # es) = answered_scan browser n k es"

definition sleeps_follow_answers ::
  "(nat \<Rightarrow> string \<Rightarrow> py_error + string) \<Rightarrow> nat \<Rightarrow> event list \<Rightarrow> bool" where
  "sleeps_follow_answers browser n es = (answered_scan browser n 0 es \<noteq> None)"

section \<open>Properties of the TSUI exporter\<close>

lemma parse_parts_nonempty: "parse_parts line = Inr r \<Longrightarrow> line \<noteq> []"
  by (auto simp: parse_parts_def strip_def)

lemma read_loop_same_pair:
  "map parse_parts ls = map (\<lambda>se. Inr (a, b, se)) ses \<Longrightarrow> p_drugpair s = d_pair_of a b \<Longrightarrow>
   read_loop d (ls @ rest) s =
     read_loop d rest (s\<lparr>c_ses := c_ses s @ ses, drugs := (if ses = [] then drugs s else Some (a, b))\<rparr>)"
proof (induction ls arbitrary: ses s)
  case Nil
  then show ?case by simp
next
  case (Cons l ls)
  then obtain se ses' where ses: "ses = se # ses'" and l: "parse_parts l = Inr (a, b, se)"
    and rest: "map parse_parts ls = map (\<lambda>se. Inr (a, b, se)) ses'"
    by (cases ses) auto
  from l have ne: "l \<noteq> []" by (rule parse_parts_nonempty)
  have body: "loop_body d l s = Inr (s\<lparr>c_ses := c_ses s @ [se], drugs := Some (a, b)\<rparr>)"
    using l Cons.prems(2) by (simp add: loop_body_def)
  show ?case
    using Cons.IH[OF rest, of "s\<lparr>c_ses := c_ses s @ [se], drugs := Some (a, b)\<rparr>"] Cons.prems(2)
    by (simp add: ne body ses)
qed

lemma read_loop_group:
  assumes "map parse_parts ls = map Inr (group_rows (q, ses))" and "ses \<noteq> []"
    and "d_pair_of (fst q) (snd q) \<noteq> p_drugpair s"
  shows "read_loop d (ls @ rest) s =
     read_loop d rest
       \<lparr>p_drugpair = d_pair_of (fst q) (snd q),
        c_ses = (if c_ses s \<noteq> [] then se_after_flush (c_ses s) (hd ses) else hd ses) # tl ses,
        drugs = Some q,
        fout = fout s @ (if c_ses s \<noteq> [] then write_prefix d (fst q) (snd q) @ write_ses (c_ses s) else [])\<rparr>"
proof -
  obtain se ses' where ses: "ses = se # ses'" using assms(2) by (cases ses) auto
  obtain a b where q: "q = (a, b)" by (cases q)
  from assms(1) obtain l ls' where ls: "ls = l # ls'" and l: "parse_parts l = Inr (a, b, se)"
    and rest: "map parse_parts ls' = map (\<lambda>se. Inr (a, b, se)) ses'"
    by (cases ls) (auto simp: group_rows_def ses q)
  from l have ne: "l \<noteq> []" by (rule parse_parts_nonempty)
  let ?s1 = "\<lparr>p_drugpair = d_pair_of a b,
        c_ses = [if c_ses s \<noteq> [] then se_after_flush (c_ses s) se else se],
        drugs = Some (a, b),
        fout = fout s @ (if c_ses s \<noteq> [] then write_prefix d a b @ write_ses (c_ses s) else [])\<rparr>"
  have body: "loop_body d l s = Inr ?s1"
    using l assms(3) by (simp add: loop_body_def q)
  have "read_loop d (ls @ rest) s = read_loop d (ls' @ rest) ?s1"
    by (simp add: ls ne body)
  also have "\<dots> = read_loop d rest (?s1\<lparr>c_ses := c_ses ?s1 @ ses', drugs := (if ses' = [] then drugs ?s1 else Some (a, b))\<rparr>)"
    by (rule read_loop_same_pair[OF rest]) simp
  finally show ?thesis by (simp add: ses q)
qed

lemma read_loop_groups:
  "groups_ok (p_drugpair s) gs \<Longrightarrow> map parse_parts ls = map Inr (concat (map group_rows gs)) \<Longrightarrow>
   c_ses s \<noteq> [] \<Longrightarrow> drugs s = Some p \<Longrightarrow>
   (case read_loop d ls s of Inl e \<Rightarrow> Inl e | Inr s' \<Rightarrow> write_last d s')
     = Inr (fout s @ flushes_as_claimed d p (c_ses s) gs)"
proof (induction gs arbitrary: s ls p)
  case Nil
  then show ?case by (cases p) (simp add: write_last_def)
next
  case (Cons g gs)
  obtain q ses where g: "g = (q, ses)" by (cases g)
  from Cons.prems(1) have key: "d_pair_of (fst q) (snd q) \<noteq> p_drugpair s" and ses: "ses \<noteq> []"
    and ok: "groups_ok (d_pair_of (fst q) (snd q)) gs"
    by (simp_all add: g)
  from Cons.prems(2) obtain ls1 ls2 where ls: "ls = ls1 @ ls2"
    and l1: "map parse_parts ls1 = map Inr (group_rows (q, ses))"
    and l2: "map parse_parts ls2 = map Inr (concat (map group_rows gs))"
    by (auto simp: g map_eq_append_conv)
  let ?s1 = "\<lparr>p_drugpair = d_pair_of (fst q) (snd q),
        c_ses = se_after_flush (c_ses s) (hd ses) # tl ses,
        drugs = Some q,
        fout = fout s @ write_prefix d (fst q) (snd q) @ write_ses (c_ses s)\<rparr>"
  have step: "read_loop d ls s = read_loop d ls2 ?s1"
    using read_loop_group[OF l1 ses key, of d ls2] Cons.prems(3) by (simp add: ls)
  have "(case read_loop d ls2 ?s1 of Inl e \<Rightarrow> Inl e | Inr s' \<Rightarrow> write_last d s')
     = Inr (fout ?s1 @ flushes_as_claimed d q (c_ses ?s1) gs)"
    by (rule Cons.IH) (simp_all add: ok l2)
  then show ?case by (simp add: step g)
qed


lemma export_tsui_groups:
  assumes "header \<noteq> []"
    and "map parse_parts body = map Inr (concat (map group_rows ((p, ses) # gs)))"
    and "ses \<noteq> []"
    and "groups_ok (d_pair_of (fst p) (snd p)) gs"
  shows "export_tsui_with d (header # body) = Inr (flushes_as_claimed d p ses gs)"
proof -
  from assms(2) obtain ls1 ls2 where ls: "body = ls1 @ ls2"
    and l1: "map parse_parts ls1 = map Inr (group_rows (p, ses))"
    and l2: "map parse_parts ls2 = map Inr (concat (map group_rows gs))"
    by (auto simp: map_eq_append_conv)
  have key: "d_pair_of (fst p) (snd p) \<noteq> p_drugpair tsui_init"
    by (simp add: d_pair_of_def tsui_init_def)
  let ?s1 = "\<lparr>p_drugpair = d_pair_of (fst p) (snd p), c_ses = ses, drugs = Some p, fout = []\<rparr>"
  have step: "read_loop d body tsui_init = read_loop d ls2 ?s1"
    using read_loop_group[OF l1 assms(3) key, of d ls2] assms(3) by (simp add: ls tsui_init_def)
  have "(case read_loop d ls2 ?s1 of Inl e \<Rightarrow> Inl e | Inr s' \<Rightarrow> write_last d s')
     = Inr (fout ?s1 @ flushes_as_claimed d p (c_ses ?s1) gs)"
    by (rule read_loop_groups) (simp_all add: assms(3,4) l2)
  then show ?thesis
    using assms(1) by (simp add: export_tsui_with_def skip_header_def step)
qed

lemma flushes_as_zip:
  "flushes_as_claimed d p acc gs =
     concat (map2 (\<lambda>n a. write_prefix d (fst n) (snd n) @ write_ses a)
       (map fst gs @ [last (p # map fst gs)]) (accumulated acc gs))"
  by (induction d p acc gs rule: flushes_as_claimed.induct) auto




text \<open>
  Claim C8. Let the data lines of the TSUI file form the consecutive drug-pair groups
  \<open>(p, ses) # gs\<close>, each with at least one side effect and with a pair key different
  from its predecessor's. Then \<^verbatim>\<open>export_tsui\<close> writes one flush per group, and the
  drug names and codes of the prefix of each flush written inside the loop are those of
  the pair of the next group (\<open>map fst gs\<close>), not of the group whose accumulated side
  effects \<open>accumulated ses gs\<close> follow it; only the last flush, written after the loop,
  is prefixed with the pair of its own group.
\<close>

theorem tsui_prefix_names_next_pair:
  assumes "header \<noteq> []"
    and "map parse_parts body = map Inr (concat (map group_rows ((p, ses) # gs)))"
    and "ses \<noteq> []"
    and "groups_ok (d_pair_of (fst p) (snd p)) gs"
  shows "export_tsui_with d (header # body) =
     Inr (concat (map2 (\<lambda>n acc. write_prefix d (fst n) (snd n) @ write_ses acc)
            (map fst gs @ [last (p # map fst gs)]) (accumulated ses gs)))"
  using export_tsui_groups[OF assms] by (simp only: flushes_as_zip)


theorem tsui_prefix_names_next_pair_witness:
  "export_tsui_with [''a'' \<mapsto> ''A1'', ''b'' \<mapsto> ''B1'', ''c'' \<mapsto> ''C1'']
     [''hdr'', ''a,b,s1'', ''a,b,s2'', ''a,c,s3'', ''b,c,s5'']
   = Inr ''a|c|A1|C1|s1,s2\<newline>b|c|B1|C1|s1\<newline>b|c|B1|C1|s5\<newline>''"
  using tsui_prefix_names_next_pair[of "''hdr''"
     "[''a,b,s1'', ''a,b,s2'', ''a,c,s3'', ''b,c,s5'']" "(''a'', ''b'')" "[''s1'', ''s2'']"
     "[((''a'', ''c''), [''s3'']), ((''b'', ''c''), [''s5''])]"
     "[''a'' \<mapsto> ''A1'', ''b'' \<mapsto> ''B1'', ''c'' \<mapsto> ''C1'']"]
  by (simp add: parse_parts_def strip_def is_space_def group_rows_def d_pair_of_def
      write_prefix_def get_dict_def fmt_s_def write_ses_def se_after_flush_def newline_def)


section \<open>Properties of the HyperConv layer\<close>

lemma map_err_all_ok: "(\<And>a. a \<in> set as \<Longrightarrow> f a = Inr (g a)) \<Longrightarrow> map_err f as = Inr (map g as)"
  by (induction as) simp_all

lemma assign_rows_map:
  "(\<And>e. e \<in> set es \<Longrightarrow> e < length x_out) \<Longrightarrow>
   assign_rows x_out es (map g es) =
     Inr (map (\<lambda>k. if k \<in> set es then Some (g k) else x_out ! k) [0..<length x_out])"
proof (induction es arbitrary: x_out)
  case Nil
  then show ?case by (simp add: map_nth)
next
  case (Cons e es)
  have "assign_rows (x_out[e := Some (g e)]) es (map g es) =
     Inr (map (\<lambda>k. if k \<in> set es then Some (g k) else x_out[e := Some (g e)] ! k)
            [0..<length (x_out[e := Some (g e)])])"
    by (rule Cons.IH) (simp add: Cons.prems)
  then show ?case
    using Cons.prems by (auto simp: nth_list_update)
qed

lemma collect_type_rows:
  assumes len: "length edge_types = length edge_index" "length x_out = length edge_index"
    and i: "i < length (transforms L)"
    and valid: "\<And>e. e < length edge_index \<Longrightarrow> edge_types ! e = int i \<Longrightarrow>
                 valid_row_index x (fst (edge_index ! e))"
  shows "collect_type L edge_index edge_types x i x_out =
     Inr (map (\<lambda>k. if edge_types ! k = int i
                   then Some ((transforms L ! i) (row_at x (fst (edge_index ! k))))
                   else x_out ! k) [0..<length edge_index])"
proof -
  let ?ids = "nonzero_eq edge_types (int i)"
  have ids: "\<And>e. e \<in> set ?ids \<longleftrightarrow> e < length edge_index \<and> edge_types ! e = int i"
    by (auto simp: nonzero_eq_def len)
  have g1: "gather_sources (map fst edge_index) ?ids = Inr (map (\<lambda>e. fst (edge_index ! e)) ?ids)"
    unfolding gather_sources_def by (rule map_err_all_ok) (simp add: ids)
  have g2: "map_err (index_row x) (map (\<lambda>e. fst (edge_index ! e)) ?ids)
      = Inr (map (row_at x) (map (\<lambda>e. fst (edge_index ! e)) ?ids))"
    by (rule map_err_all_ok) (auto simp: index_row_def ids valid)
  have g3: "assign_rows x_out ?ids
        (map (\<lambda>e. (transforms L ! i) (row_at x (fst (edge_index ! e)))) ?ids)
      = Inr (map (\<lambda>k. if k \<in> set ?ids
                       then Some ((transforms L ! i) (row_at x (fst (edge_index ! k))))
                       else x_out ! k) [0..<length x_out])"
    by (rule assign_rows_map) (simp add: ids len)
  have "collect_type L edge_index edge_types x i x_out =
      Inr (map (\<lambda>k. if k \<in> set ?ids
                       then Some ((transforms L ! i) (row_at x (fst (edge_index ! k))))
                       else x_out ! k) [0..<length x_out])"
    using i g3 by (simp add: collect_type_def g1 g2 o_def)
  also have "\<dots> = Inr (map (\<lambda>k. if edge_types ! k = int i
                   then Some ((transforms L ! i) (row_at x (fst (edge_index ! k))))
                   else x_out ! k) [0..<length edge_index])"
    by (simp add: ids len)
  finally show ?thesis .
qed

lemma collect_loop_rows:
  assumes len: "length edge_types = length edge_index"
    and valid: "\<And>e i. e < length edge_index \<Longrightarrow> i \<in> set is \<Longrightarrow> edge_types ! e = int i \<Longrightarrow>
                 valid_row_index x (fst (edge_index ! e))"
  shows "length x_out = length edge_index \<Longrightarrow> (\<And>i. i \<in> set is \<Longrightarrow> i < length (transforms L)) \<Longrightarrow>
    collect_loop L edge_index edge_types x is x_out =
     Inr (map (\<lambda>k. if \<exists>i \<in> set is. edge_types ! k = int i
                   then Some ((transforms L ! nat (edge_types ! k)) (row_at x (fst (edge_index ! k))))
                   else x_out ! k) [0..<length edge_index])"
  using valid
proof (induction "is" arbitrary: x_out)
  case Nil
  from Nil(1)[symmetric] show ?case by (simp add: map_nth)
next
  case (Cons i "is")
  let ?x1 = "map (\<lambda>k. if edge_types ! k = int i
                   then Some ((transforms L ! i) (row_at x (fst (edge_index ! k))))
                   else x_out ! k) [0..<length edge_index]"
  have step: "collect_type L edge_index edge_types x i x_out = Inr ?x1"
  proof (rule collect_type_rows)
    show "length edge_types = length edge_index" by (rule len)
    show "length x_out = length edge_index" by (rule Cons.prems(1))
    show "i < length (transforms L)" by (rule Cons.prems(2)) simp
    show "valid_row_index x (fst (edge_index ! e))"
      if "e < length edge_index" "edge_types ! e = int i" for e
      using that by (intro Cons.prems(3)[of e i]) simp_all
  qed
  have rest: "collect_loop L edge_index edge_types x is ?x1 =
     Inr (map (\<lambda>k. if \<exists>i \<in> set is. edge_types ! k = int i
                   then Some ((transforms L ! nat (edge_types ! k)) (row_at x (fst (edge_index ! k))))
                   else ?x1 ! k) [0..<length edge_index])"
  proof (rule Cons.IH)
    show "length ?x1 = length edge_index" by simp
    show "j < length (transforms L)" if "j \<in> set is" for j
      using that by (intro Cons.prems(2)) simp
    show "valid_row_index x (fst (edge_index ! e))"
      if "e < length edge_index" "j \<in> set is" "edge_types ! e = int j" for e j
      using that by (intro Cons.prems(3)[of e j]) simp_all
  qed
  show ?case
    by (simp add: step rest)
qed

lemma collect_rows:
  assumes "length edge_types = length edge_index"
    and "length (transforms L) = n_type L"
    and "\<And>e. e < length edge_index \<Longrightarrow> type_in_range L (edge_types ! e) \<Longrightarrow>
           valid_row_index x (fst (edge_index ! e))"
  shows "collect L edge_index edge_types x =
     Inr (map (\<lambda>k. if type_in_range L (edge_types ! k)
                   then Some ((transforms L ! nat (edge_types ! k)) (row_at x (fst (edge_index ! k))))
                   else None) [0..<length edge_index])"
proof -
  have in_range: "(\<exists>i \<in> {0..<n_type L}. t = int i) \<longleftrightarrow> type_in_range L t" for t
    unfolding type_in_range_def by (auto intro: bexI[of _ "nat t"])
  have "collect_loop L edge_index edge_types x [0..<n_type L] (replicate (length edge_index) None) =
     Inr (map (\<lambda>k. if \<exists>i \<in> set [0..<n_type L]. edge_types ! k = int i
                   then Some ((transforms L ! nat (edge_types ! k)) (row_at x (fst (edge_index ! k))))
                   else replicate (length edge_index) None ! k) [0..<length edge_index])"
    by (rule collect_loop_rows) (auto simp: assms type_in_range_def)
  then show ?thesis
    by (simp add: collect_def in_range cong: map_cong)
qed

lemma HyperConv_init_fields:
  "n_type (HyperConv_init n skip make_linear dense) = n"
  "length (transforms (HyperConv_init n skip make_linear dense)) = n"
  "skip_last_weight (HyperConv_init n skip make_linear dense) = skip"
  by (simp_all add: HyperConv_init_def)

lemma foldr_max_ge: "j \<in> set index \<Longrightarrow> j \<le> foldr max index (0::int)"
  by (induction index) auto

lemma aggregate_mean_rows:
  assumes len: "length msgs = length index"
    and nonneg: "\<And>j. j \<in> set index \<Longrightarrow> 0 \<le> j"
    and e0: "e0 < length index" "index ! e0 = int v"
  shows "\<exists>out. aggregate_mean (map Some msgs) index = Inr out \<and> v < length out \<and>
     out ! v = Some (mean_rows (map (\<lambda>e. msgs ! e) (filter (\<lambda>e. index ! e = int v) [0..<length index])))"
proof -
  have ne: "index \<noteq> []" using e0 by auto
  have "int v \<le> foldr max index 0"
    using foldr_max_ge[of "index ! e0" index] e0 nth_mem[of e0 index] by simp
  then have v: "v < nat (foldr max index 0) + 1" by linarith
  have no_neg: "\<not> list_ex (\<lambda>j. j < 0) index"
    by (auto simp: list_ex_iff dest!: nonneg)
  have rows: "map (\<lambda>e. map Some msgs ! e) (filter (\<lambda>e. index ! e = int v) [0..<length index])
      = map Some (map (\<lambda>e. msgs ! e) (filter (\<lambda>e. index ! e = int v) [0..<length index]))"
    by (simp add: len)
  have all_some: "\<not> list_ex (\<lambda>r. r = None) (map Some rs)" for rs :: "'a list"
    by (simp add: list_ex_iff)
  have the_some: "map the (map Some rs) = rs" for rs :: "'a list"
    by (simp add: o_def)
  show ?thesis
    using v
    by (simp add: aggregate_mean_def len no_neg ne Let_def rows all_some the_some
        del: map_map upt_Suc)
qed

text \<open>
  Claim C1. For a layer built by the constructor and a call whose edge types lie in the
  documented range \<open>0 .. n_type - 1\<close> and whose source indices address rows of \<open>x\<close>, the
  per-edge message at position \<open>e\<close> is \<^verbatim>\<open>transforms[edge_types[e]]\<close> applied to
  \<^verbatim>\<open>x[edge_index[0, e]]\<close>: each type's edges are transformed by that type's own layer.
\<close>

theorem collect_message_per_edge:
  assumes "L = HyperConv_init n skip make_linear dense"
    and "length edge_types = length edge_index"
    and "\<forall>e<length edge_index. type_in_range L (edge_types ! e)"
    and "\<forall>e<length edge_index. valid_row_index x (fst (edge_index ! e))"
  shows "\<exists>x_out. collect L edge_index edge_types x = Inr x_out \<and>
     length (message x_out) = length edge_index \<and>
     (\<forall>e<length edge_index.
        message x_out ! e =
          Some ((transforms L ! nat (edge_types ! e)) (row_at x (fst (edge_index ! e)))))"
proof -
  have "collect L edge_index edge_types x =
     Inr (map (\<lambda>k. if type_in_range L (edge_types ! k)
                   then Some ((transforms L ! nat (edge_types ! k)) (row_at x (fst (edge_index ! k))))
                   else None) [0..<length edge_index])"
    by (rule collect_rows) (simp_all add: assms HyperConv_init_fields)
  then show ?thesis
    using assms(3) by (simp add: message_def)
qed


text \<open>
  Claim C2. With \<^verbatim>\<open>skip_last_weight=True\<close>, the output row of a node \<open>v\<close> that is the
  destination of an edge is the mean of the transformed source-node features over exactly
  the edges \<open>e\<close> with \<^verbatim>\<open>edge_index[1, e] = v\<close>.
\<close>

theorem forward_mean_by_destination:
  assumes "L = HyperConv_init n True make_linear dense"
    and "length edge_types = length edge_index"
    and "\<forall>e<length edge_index. type_in_range L (edge_types ! e)"
    and "\<forall>e<length edge_index. valid_row_index x (fst (edge_index ! e))"
    and "\<forall>e<length edge_index. 0 \<le> snd (edge_index ! e)"
    and "e0 < length edge_index" and "snd (edge_index ! e0) = int v"
  shows "\<exists>out. forward L x edge_index edge_types = Inr out \<and> v < length out \<and>
     out ! v = Some (mean_rows
       (map (\<lambda>e. (transforms L ! nat (edge_types ! e)) (row_at x (fst (edge_index ! e))))
          (filter (\<lambda>e. snd (edge_index ! e) = int v) [0..<length edge_index])))"
proof -
  let ?msg = "\<lambda>e. (transforms L ! nat (edge_types ! e)) (row_at x (fst (edge_index ! e)))"
  let ?msgs = "map ?msg [0..<length edge_index]"
  have "collect L edge_index edge_types x =
     Inr (map (\<lambda>k. if type_in_range L (edge_types ! k) then Some (?msg k) else None)
            [0..<length edge_index])"
    by (rule collect_rows) (simp_all add: assms HyperConv_init_fields)
  also have "map (\<lambda>k. if type_in_range L (edge_types ! k) then Some (?msg k) else None)
            [0..<length edge_index] = map Some ?msgs"
    using assms(3) by simp
  finally have coll: "collect L edge_index edge_types x = Inr (map Some ?msgs)" .
  have "\<exists>out. aggregate_mean (map Some ?msgs) (map snd edge_index) = Inr out \<and> v < length out \<and>
     out ! v = Some (mean_rows (map (\<lambda>e. ?msgs ! e)
        (filter (\<lambda>e. map snd edge_index ! e = int v) [0..<length (map snd edge_index)])))"
  proof (rule aggregate_mean_rows)
    show "length ?msgs = length (map snd edge_index)" by simp
    show "0 \<le> j" if "j \<in> set (map snd edge_index)" for j
      using that assms(5) by (fastforce simp: in_set_conv_nth)
    show "e0 < length (map snd edge_index)" using assms(6) by simp
    show "map snd edge_index ! e0 = int v" using assms(6,7) by simp
  qed
  then obtain out where agg: "aggregate_mean (map Some ?msgs) (map snd edge_index) = Inr out"
    and v: "v < length out"
    and row: "out ! v = Some (mean_rows (map (\<lambda>e. ?msgs ! e)
        (filter (\<lambda>e. map snd edge_index ! e = int v) [0..<length (map snd edge_index)])))"
    by blast
  have same: "map (\<lambda>e. ?msgs ! e)
        (filter (\<lambda>e. map snd edge_index ! e = int v) [0..<length (map snd edge_index)])
      = map ?msg (filter (\<lambda>e. snd (edge_index ! e) = int v) [0..<length edge_index])"
    by (auto intro!: map_cong filter_cong)
  have skip: "skip_last_weight L"
    by (simp add: assms(1) HyperConv_init_fields)
  have "forward L x edge_index edge_types = Inr out"
    by (simp only: forward_def propagate_def coll message_def Let_def agg update_def skip
        sum.case if_True)
  with v row same show ?thesis by simp
qed

theorem collect_message_per_edge_witness:
  "\<exists>x_out. collect (HyperConv_init 5 True (\<lambda>i (r::real). r * real (i + 1)) (\<lambda>x a. a))
       [(0, 1), (1, 0), (0, 0), (1, 1), (- 1, 1)] [0, 0, 3, 3, 4] [10, 20] = Inr x_out \<and>
     message x_out ! 4 = Some 100 \<and> message x_out ! 2 = Some 40"
proof -
  let ?L = "HyperConv_init 5 True (\<lambda>i (r::real). r * real (i + 1)) (\<lambda>x a. a)"
  let ?ei = "[(0, 1), (1, 0), (0, 0), (1, 1), (- 1, 1::int)] :: (int \<times> int) list"
  let ?et = "[0, 0, 3, 3, 4] :: int list"
  let ?x = "[10, 20] :: real list"
  have t: "\<forall>e<length ?ei. type_in_range ?L (?et ! e)"
    by (auto simp: type_in_range_def HyperConv_init_def nth_Cons')
  have v: "\<forall>e<length ?ei. valid_row_index ?x (fst (?ei ! e))"
    by (auto simp: valid_row_index_def nth_Cons')
  from collect_message_per_edge[OF refl _ t v]
  obtain x_out where c: "collect ?L ?ei ?et ?x = Inr x_out"
    and m: "\<forall>e<length ?ei. message x_out ! e =
          Some ((transforms ?L ! nat (?et ! e)) (row_at ?x (fst (?ei ! e))))"
    by auto
  from m have "message x_out ! 4 = Some ((transforms ?L ! nat (?et ! 4)) (row_at ?x (fst (?ei ! 4))))"
    by simp
  moreover from m have "message x_out ! 2 = Some ((transforms ?L ! nat (?et ! 2)) (row_at ?x (fst (?ei ! 2))))"
    by simp
  ultimately show ?thesis
    using c by (simp add: HyperConv_init_def row_at_def eval_nat_numeral)
qed


theorem forward_mean_by_destination_witness:
  "\<exists>out. forward (HyperConv_init 5 True (\<lambda>i (r::real). r * real (i + 1)) (\<lambda>x a. a))
       [10, 20] [(0, 1), (1, 0), (0, 0), (1, 1), (- 1, 1)] [0, 0, 3, 3, 4] = Inr out \<and>
     out ! 1 = Some (190 / 3)"
proof -
  let ?L = "HyperConv_init 5 True (\<lambda>i (r::real). r * real (i + 1)) (\<lambda>x a. a)"
  let ?ei = "[(0, 1), (1, 0), (0, 0), (1, 1), (- 1, 1::int)] :: (int \<times> int) list"
  let ?et = "[0, 0, 3, 3, 4] :: int list"
  let ?x = "[10, 20] :: real list"
  have t: "\<forall>e<length ?ei. type_in_range ?L (?et ! e)"
    by (auto simp: type_in_range_def HyperConv_init_def nth_Cons')
  have v: "\<forall>e<length ?ei. valid_row_index ?x (fst (?ei ! e))"
    by (auto simp: valid_row_index_def nth_Cons')
  have d: "\<forall>e<length ?ei. 0 \<le> snd (?ei ! e)"
    by (auto simp: nth_Cons')
  have e0: "(0::nat) < length ?ei" "snd (?ei ! 0) = int 1" by simp_all
  from forward_mean_by_destination[OF refl _ t v d e0]
  obtain out where f: "forward ?L ?x ?ei ?et = Inr out"
    and m: "out ! 1 = Some (mean_rows
       (map (\<lambda>e. (transforms ?L ! nat (?et ! e)) (row_at ?x (fst (?ei ! e))))
          (filter (\<lambda>e. snd (?ei ! e) = int 1) [0..<length ?ei])))"
    by auto
  have "mean_rows
       (map (\<lambda>e. (transforms ?L ! nat (?et ! e)) (row_at ?x (fst (?ei ! e))))
          (filter (\<lambda>e. snd (?ei ! e) = int 1) [0..<length ?ei])) = 190 / 3"
    by (simp add: mean_rows_def HyperConv_init_def row_at_def upt_rec[of _ 5] eval_nat_numeral)
  with f m show ?thesis by simp
qed

section \<open>Properties of the scraping scripts\<close>

lemma split_chr_nonempty: "split_chr c s \<noteq> []"
  by (induction c s rule: split_chr.induct) (auto simp: neq_Nil_conv elim: cons_first.elims)

lemma rex_json_nonempty: "rex_json P v = Inr rex \<Longrightarrow> rex \<noteq> []"
  by (auto simp: rex_json_def bind_err_def split: sum.splits)

lemma rex_html_nonempty: "rex_html P v = Inr rex \<Longrightarrow> rex \<noteq> []"
  by (auto simp: rex_html_def bind_err_def Let_def split_chr_nonempty split: sum.splits option.splits)

lemma rex_try_nonempty: "rex_try P v = Inr rex \<Longrightarrow> rex \<noteq> []"
  by (auto simp: rex_try_def rex_json_nonempty rex_html_nonempty split: if_splits)

lemma parsex_item_line:
  "parsex_item P kv out = out @
     (case rex_try P (snd kv) of
        Inl e \<Rightarrow> []
      | Inr rex \<Rightarrow> fst kv @ ''||'' @ py_join '','' rex @ [newline])"
  by (cases "rex_try P (snd kv)")
     (auto simp: parsex_item_def rex_of_def Let_def dest: rex_try_nonempty)

lemma parsex_loop_lines:
  "parsex_loop P items out = out @ concat (map (\<lambda>kv.
       case rex_try P (snd kv) of
         Inl e \<Rightarrow> []
       | Inr rex \<Rightarrow> fst kv @ ''||'' @ py_join '','' rex @ [newline]) items)"
proof (induction items arbitrary: out)
  case Nil
  show ?case by simp
next
  case (Cons kv items)
  show ?case
    by (simp only: parsex_loop.simps Cons.IH parsex_item_line) simp
qed

text \<open>
  Claim C4. When the processing of an item raises, the exception is swallowed and the loop
  goes on with the next item. For a prediction line of \<^verbatim>\<open>getInteractions\<close>: the
  handler prints the exception, the dictionary of responses is as it was before the line,
  and the line has sent at most one request, with no sleep and no second attempt. For a
  stored response of \<^verbatim>\<open>parsex\<close>: nothing is written for it, and the output is the text
  written before followed by the lines of the other responses, those before it and those
  after it, in order.
\<close>

theorem item_exception_swallowed:
  "(interaction_try browser ids cur line s = (s1, Some e) \<longrightarrow>
      interaction_loop browser ids cur (line # rest) s =
        interaction_loop browser ids cur rest (log_event (Printed e) s1) \<and>
      store (log_event (Printed e) s1) = store s \<and>
      (events s1 = events s \<or> (\<exists>u. events s1 = events s @ [Request u]))) \<and>
   (rex_try P v = Inl e' \<longrightarrow>
      parsex_loop P ((k, v) # items) out = parsex_loop P items out \<and>
      parsex_loop P (before @ (k, v) # items) out =
        out @ concat (map (\<lambda>kv.
          case rex_try P (snd kv) of
            Inl e \<Rightarrow> []
          | Inr rex \<Rightarrow> fst kv @ ''||'' @ py_join '','' rex @ [newline]) (before @ items)))"
proof (intro conjI impI)
  assume t: "interaction_try browser ids cur line s = (s1, Some e)"
  show "interaction_loop browser ids cur (line # rest) s =
        interaction_loop browser ids cur rest (log_event (Printed e) s1)"
    by (simp add: interaction_step_def t)
  from t show "store (log_event (Printed e) s1) = store s"
    unfolding interaction_try_def
    by (auto simp: Let_def log_event_def split: if_splits prod.splits sum.splits)
  from t show "events s1 = events s \<or> (\<exists>u. events s1 = events s @ [Request u])"
    unfolding interaction_try_def
    by (auto simp: Let_def log_event_def split: if_splits prod.splits sum.splits)
next
  assume "rex_try P v = Inl e'"
  then show "parsex_loop P ((k, v) # items) out = parsex_loop P items out"
    by (simp add: parsex_item_def rex_of_def)
next
  assume r: "rex_try P v = Inl e'"
  show "parsex_loop P (before @ (k, v) # items) out =
        out @ concat (map (\<lambda>kv.
          case rex_try P (snd kv) of
            Inl e \<Rightarrow> []
          | Inr rex \<Rightarrow> fst kv @ ''||'' @ py_join '','' rex @ [newline]) (before @ items))"
    by (simp add: parsex_loop_lines r)
qed

theorem item_exception_swallowed_witness:
  "interaction_loop (\<lambda>n u. if n = 0 then Inl WebDriverException else Inr ''body'')
       [(''a'', ''1-2''), (''b'', ''3-4''), (''c'', ''5-6'')] [] [''b,a'', ''c,a'']
       \<lparr>store = [(''x,y'', ''old'')], events = []\<rparr>
     = \<lparr>store = [(''x,y'', ''old''), (''a,c'', ''body'')],
        events = [Request (INTER_PREF @ ''1-2,3-4''), Printed WebDriverException,
                  Request (INTER_PREF @ ''1-2,5-6''), Sleep 4]\<rparr> \<and>
   parsex_loop
     \<lparr>json_loads = (\<lambda>v. Inl JSONDecodeError), fmt_json = (\<lambda>j. []),
      find_ls_item = (\<lambda>v. if v = ''<a>'' then Some [(''onclick'', ''pick('123', 'aspirin')'')] else None)\<rparr>
     [(''d0'', ''<a>''), (''d1'', categories_prefix), (''d2'', ''<a>'')] ''k||0,1\<newline>''
   = ''k||0,1\<newline>d0||123,aspirin\<newline>d2||123,aspirin\<newline>''"
proof -
  let ?B = "\<lambda>(n::nat) (u::string). if n = 0 then Inl WebDriverException else Inr ''body''"
  let ?ids = "[(''a'', ''1-2''), (''b'', ''3-4''), (''c'', ''5-6'')]"
  let ?s = "\<lparr>store = [(''x,y'', ''old'')], events = []\<rparr>"
  let ?s1 = "\<lparr>store = [(''x,y'', ''old'')], events = [Request (INTER_PREF @ ''1-2,3-4'')]\<rparr>"
  let ?P = "\<lparr>json_loads = (\<lambda>v. Inl JSONDecodeError), fmt_json = (\<lambda>j. []),
      find_ls_item = (\<lambda>v. if v = ''<a>'' then Some [(''onclick'', ''pick('123', 'aspirin')'')] else None)\<rparr>"
  have t: "interaction_try ?B ?ids [] ''b,a'' ?s = (?s1, Some WebDriverException)"
    by (simp add: interaction_try_def Let_def strip_def is_space_def lower_def lower_chr_def
        srt_def dict_has_def dict_get_def log_event_def requests_made_def)
  have r: "rex_try ?P categories_prefix = Inl JSONDecodeError"
    by (simp add: rex_try_def rex_json_def bind_err_def)
  note inst = item_exception_swallowed[of ?B ?ids "[]" "''b,a''" ?s ?s1 WebDriverException "[''c,a'']"
      ?P categories_prefix JSONDecodeError "''d1''" "[(''d2'', ''<a>'')]" "''k||0,1\<newline>''"
      "[(''d0'', ''<a>'')]"]
  from inst t have loop: "interaction_loop ?B ?ids [] [''b,a'', ''c,a''] ?s =
        interaction_loop ?B ?ids [] [''c,a''] (log_event (Printed WebDriverException) ?s1)"
    by blast
  have rest: "interaction_loop ?B ?ids [] [''c,a''] (log_event (Printed WebDriverException) ?s1)
     = \<lparr>store = [(''x,y'', ''old''), (''a,c'', ''body'')],
        events = [Request (INTER_PREF @ ''1-2,3-4''), Printed WebDriverException,
                  Request (INTER_PREF @ ''1-2,5-6''), Sleep 4]\<rparr>"
    by (simp add: interaction_step_def interaction_try_def Let_def strip_def is_space_def
        lower_def lower_chr_def srt_def dict_has_def dict_get_def log_event_def
        requests_made_def save_if_tenth_def)
  from inst r have "parsex_loop ?P ([(''d0'', ''<a>'')] @ (''d1'', categories_prefix) # [(''d2'', ''<a>'')])
        ''k||0,1\<newline>'' =
        ''k||0,1\<newline>'' @ concat (map (\<lambda>kv.
          case rex_try ?P (snd kv) of
            Inl e \<Rightarrow> []
          | Inr rex \<Rightarrow> fst kv @ ''||'' @ py_join '','' rex @ [newline])
          ([(''d0'', ''<a>'')] @ [(''d2'', ''<a>'')]))"
    by blast
  then have px: "parsex_loop ?P [(''d0'', ''<a>''), (''d1'', categories_prefix), (''d2'', ''<a>'')]
        ''k||0,1\<newline>'' = ''k||0,1\<newline>d0||123,aspirin\<newline>d2||123,aspirin\<newline>''"
    by (simp add: rex_try_def categories_prefix_def rex_html_def bind_err_def slice_def
        strip_def is_space_def strip_ends_def newline_def)
  show ?thesis
    using loop rest px by (simp only:)
qed

lemma index_of_first: "c \<notin> set pre \<Longrightarrow> index_of c (pre @ c # rest) = Inr (length pre)"
  by (induction pre) auto

lemma rex_html_parenthesized:
  assumes "find_ls_item P v = Some attrs"
    and "map_of attrs ''onclick'' = Some (pre @ ''('' @ inner @ '')'' @ post)"
    and "CHR ''('' \<notin> set pre" and "CHR '')'' \<notin> set pre" and "CHR '')'' \<notin> set inner"
  shows "rex_html P v = Inr (map (\<lambda>part. strip_ends (strip part)) (split_chr CHR '','' inner))"
proof -
  let ?txt = "pre @ CHR ''('' # inner @ CHR '')'' # post"
  have onclick: "map_of attrs ''onclick'' = Some ?txt"
    using assms(2) by simp
  have i1: "index_of CHR ''('' ?txt = Inr (length pre)"
    by (rule index_of_first[OF assms(3)])
  have "index_of CHR '')'' ((pre @ CHR ''('' # inner) @ CHR '')'' # post)
      = Inr (length (pre @ CHR ''('' # inner))"
    by (rule index_of_first) (use assms(4,5) in simp)
  then have i2: "index_of CHR '')'' ?txt = Inr (Suc (length pre + length inner))"
    by simp
  have sl: "slice ?txt (Suc (length pre)) (Suc (length pre + length inner)) = inner"
    by (simp add: slice_def)
  show ?thesis
    by (simp add: rex_html_def assms(1) onclick bind_err_def i1 i2 sl)
qed

text \<open>
  Claim C5. \<^verbatim>\<open>parsex\<close> decodes a stored response as JSON exactly when it starts with
  \<^verbatim>\<open>{"categories":\<close> and parses every other response as HTML; a line
  \<^verbatim>\<open>name||values\<close> is written exactly when the branch taken returned values, and it
  then returns at least one. The JSON branch reads \<^verbatim>\<open>ddc_id\<close> and
  \<^verbatim>\<open>brand_name_id\<close> of \<^verbatim>\<open>categories[0].results[0]\<close>; the HTML branch takes the text
  between the first parentheses of the \<^verbatim>\<open>onclick\<close> attribute of the first anchor of
  class \<^verbatim>\<open>ls-item\<close>, splits it at the commas, and strips each part of its blanks and
  of its first and last character.
\<close>

theorem parsex_json_iff_categories_prefix:
  "parsex_loop P items out = out @ concat (map (\<lambda>kv.
       case (if prefix categories_prefix (snd kv) then rex_json P (snd kv) else rex_html P (snd kv)) of
         Inl e \<Rightarrow> []
       | Inr rex \<Rightarrow> fst kv @ ''||'' @ py_join '','' rex @ [newline]) items) \<and>
   (json_loads P v = Inr j \<and> json_key j ''categories'' = Inr cs \<and> json_idx cs 0 = Inr c0 \<and>
    json_key c0 ''results'' = Inr rs \<and> json_idx rs 0 = Inr r \<and>
    json_key r ''ddc_id'' = Inr a \<and> json_key r ''brand_name_id'' = Inr b \<longrightarrow>
      rex_json P v = Inr [fmt_json P a, fmt_json P b]) \<and>
   (find_ls_item P v = Some attrs \<and>
    map_of attrs ''onclick'' = Some (pre @ ''('' @ inner @ '')'' @ post) \<and>
    CHR ''('' \<notin> set pre \<and> CHR '')'' \<notin> set pre \<and> CHR '')'' \<notin> set inner \<longrightarrow>
      rex_html P v = Inr (map (\<lambda>part. strip_ends (strip part)) (split_chr CHR '','' inner)))"
proof (intro conjI impI)
  show "parsex_loop P items out = out @ concat (map (\<lambda>kv.
       case (if prefix categories_prefix (snd kv) then rex_json P (snd kv) else rex_html P (snd kv)) of
         Inl e \<Rightarrow> []
       | Inr rex \<Rightarrow> fst kv @ ''||'' @ py_join '','' rex @ [newline]) items)"
  proof (induction items arbitrary: out)
    case Nil
    show ?case by simp
  next
    case (Cons kv items)
    show ?case
      by (simp only: parsex_loop.simps Cons.IH parsex_item_line) (simp add: rex_try_def)
  qed
next
  assume "json_loads P v = Inr j \<and> json_key j ''categories'' = Inr cs \<and> json_idx cs 0 = Inr c0 \<and>
    json_key c0 ''results'' = Inr rs \<and> json_idx rs 0 = Inr r \<and>
    json_key r ''ddc_id'' = Inr a \<and> json_key r ''brand_name_id'' = Inr b"
  then show "rex_json P v = Inr [fmt_json P a, fmt_json P b]"
    by (simp add: rex_json_def bind_err_def)
next
  assume "find_ls_item P v = Some attrs \<and>
    map_of attrs ''onclick'' = Some (pre @ ''('' @ inner @ '')'' @ post) \<and>
    CHR ''('' \<notin> set pre \<and> CHR '')'' \<notin> set pre \<and> CHR '')'' \<notin> set inner"
  then show "rex_html P v = Inr (map (\<lambda>part. strip_ends (strip part)) (split_chr CHR '','' inner))"
    using rex_html_parenthesized[of P v attrs pre inner post] by blast
qed

theorem parsex_json_iff_categories_prefix_witness:
  "parsex_loop
     \<lparr>json_loads = (\<lambda>v. if v = categories_prefix @ ''[..]}''
          then Inr (JObj [(''categories'', JArr [JObj [(''results'',
                 JArr [JObj [(''ddc_id'', JInt 243), (''brand_name_id'', JInt 0)]])]])])
          else Inl JSONDecodeError),
      fmt_json = (\<lambda>j. case j of JInt i \<Rightarrow> show_int i | JStr s \<Rightarrow> s | _ \<Rightarrow> []),
      find_ls_item = (\<lambda>v. if v = ''<a>'' then Some [(''onclick'', ''pick('123', 'aspirin')'')] else None)\<rparr>
     [(''d1'', categories_prefix @ ''[..]}''), (''d2'', ''<a>''), (''d3'', ''zz''),
      (''d4'', categories_prefix)] []
   = ''d1||243,0\<newline>d2||123,aspirin\<newline>''"
  using parsex_json_iff_categories_prefix[of
     "\<lparr>json_loads = (\<lambda>v. if v = categories_prefix @ ''[..]}''
          then Inr (JObj [(''categories'', JArr [JObj [(''results'',
                 JArr [JObj [(''ddc_id'', JInt 243), (''brand_name_id'', JInt 0)]])]])])
          else Inl JSONDecodeError),
      fmt_json = (\<lambda>j. case j of JInt i \<Rightarrow> show_int i | JStr s \<Rightarrow> s | _ \<Rightarrow> []),
      find_ls_item = (\<lambda>v. if v = ''<a>'' then Some [(''onclick'', ''pick('123', 'aspirin')'')] else None)\<rparr>"
     "[(''d1'', categories_prefix @ ''[..]}''), (''d2'', ''<a>''), (''d3'', ''zz''),
      (''d4'', categories_prefix)]" "[]", THEN conjunct1]
  by (simp add: categories_prefix_def rex_json_def rex_html_def bind_err_def slice_def
      strip_def is_space_def strip_ends_def show_int_def newline_def char_of_def bit_0)

lemma extract_item_lines:
  "extract_item find_wrapper kv fs =
     \<lparr>fMatching = fMatching fs @
        (case find_wrapper (snd kv) of
           None \<Rightarrow> []
         | Some w \<Rightarrow>
             if contains no_interaction_marker (div_text w) then []
             else fst kv @ ''||'' @ replace_newlines (py_join ''. '' (paragraphs w)) @ [newline]),
      fnoMatching = fnoMatching fs @
        (case find_wrapper (snd kv) of
           None \<Rightarrow> []
         | Some w \<Rightarrow>
             if contains no_interaction_marker (div_text w) then fst kv @ [newline] else [])\<rparr>"
  by (cases "find_wrapper (snd kv)")
     (simp_all add: extract_item_def no_match_try_def matching_try_def)

text \<open>
  Claim C6, amended. \<^verbatim>\<open>extractInteraction\<close> writes a pair whose response has an
  \<^verbatim>\<open>interactions-reference-wrapper\<close> element to exactly one file: to
  \<^verbatim>\<open>PairNoMatching.txt\<close> when the element's text contains the no-interaction marker,
  and otherwise to \<^verbatim>\<open>PairMatching.txt\<close> with the texts of its paragraphs joined. A pair
  whose response has no such element is written to neither file.
\<close>

theorem extract_pair_written_once_when_wrapper_found:
  "extract_loop find_wrapper items fs =
     \<lparr>fMatching = fMatching fs @ concat (map (\<lambda>kv.
        case find_wrapper (snd kv) of
          None \<Rightarrow> []
        | Some w \<Rightarrow>
            if contains no_interaction_marker (div_text w) then []
            else fst kv @ ''||'' @ replace_newlines (py_join ''. '' (paragraphs w)) @ [newline]) items),
      fnoMatching = fnoMatching fs @ concat (map (\<lambda>kv.
        case find_wrapper (snd kv) of
          None \<Rightarrow> []
        | Some w \<Rightarrow>
            if contains no_interaction_marker (div_text w) then fst kv @ [newline] else []) items)\<rparr>"
proof (induction items arbitrary: fs)
  case Nil
  show ?case by simp
next
  case (Cons kv items)
  show ?case
    by (simp only: extract_loop.simps Cons.IH extract_item_lines)
       (simp split: option.splits)
qed

theorem extract_pair_written_once_when_wrapper_found_witness:
  "extract_loop
     (\<lambda>v. if v = ''none'' then None else Some \<lparr>div_text = v, paragraphs = [''p1'', ''p2'']\<rparr>)
     [(''a,b'', ''none''), (''a,c'', ''Major''), (''b,c'', no_interaction_marker)]
     \<lparr>fMatching = [], fnoMatching = []\<rparr>
   = \<lparr>fMatching = ''a,c||p1. p2\<newline>'', fnoMatching = ''b,c\<newline>''\<rparr>"
  using extract_pair_written_once_when_wrapper_found[of
     "\<lambda>v. if v = ''none'' then None else Some \<lparr>div_text = v, paragraphs = [''p1'', ''p2'']\<rparr>"
     "[(''a,b'', ''none''), (''a,c'', ''Major''), (''b,c'', no_interaction_marker)]"
     "\<lparr>fMatching = [], fnoMatching = []\<rparr>"]
  by (simp add: no_interaction_marker_def replace_newlines_def newline_def)

text \<open>
  Claim C6 as stated fails: a response without the wrapper element makes both
  \<^verbatim>\<open>try\<close> blocks raise AttributeError, both handlers print, and the pair is in neither
  file.
\<close>

theorem extract_pair_in_neither_file_counterexample:
  "extractInteraction (\<lambda>v. None) (Inr [(''aspirin,warfarin'', ''<html></html>'')])
     = Inr \<lparr>fMatching = [], fnoMatching = []\<rparr>"
  by (simp add: extractInteraction_def extract_item_def no_match_try_def matching_try_def)

lemma rate_scan_append:
  "rate_scan n fr p (xs @ ys) =
     (case rate_scan n fr p xs of None \<Rightarrow> None | Some q \<Rightarrow> rate_scan n fr q ys)"
  by (induction n fr p xs rule: rate_scan.induct) simp_all

lemma rate_scan_save_if_tenth:
  "rate_scan n fr False (events s) = Some q \<Longrightarrow> rate_scan n fr False (events (save_if_tenth s)) = Some q"
  by (simp add: save_if_tenth_def log_event_def rate_scan_append)

lemma download_loop_rate:
  "rate_scan 3 False False (events s) = Some False \<Longrightarrow>
   rate_scan 3 False False (events (fst (download_loop getTextURL drugList s))) \<noteq> None"
proof (induction drugList arbitrary: s)
  case Nil
  then show ?case by simp
next
  case (Cons drug rest)
  show ?case
  proof (cases "dict_has (store s) drug")
    case True
    then show ?thesis using Cons by simp
  next
    case False
    show ?thesis
    proof (cases "getTextURL (requests_made s) (getRetrieveDrugURL drug)")
      case (Inl e)
      then show ?thesis
        using False Cons.prems by (simp add: Let_def log_event_def rate_scan_append)
    next
      case (Inr page)
      let ?s3 = "log_event (Sleep 3)
          (log_event (Request (getRetrieveDrugURL drug)) s
             \<lparr>store := dict_set (store (log_event (Request (getRetrieveDrugURL drug)) s)) drug page\<rparr>)"
      have "rate_scan 3 False False (events ?s3) = Some False"
        using Cons.prems by (simp add: log_event_def rate_scan_append)
      then have "rate_scan 3 False False (events (save_if_tenth ?s3)) = Some False"
        by (rule rate_scan_save_if_tenth)
      then have "rate_scan 3 False False
          (events (fst (download_loop getTextURL rest (save_if_tenth ?s3)))) \<noteq> None"
        by (rule Cons.IH)
      then show ?thesis
        using False Inr by (simp add: Let_def)
    qed
  qed
qed

lemma downloadDrugWebId_rate:
  "sleep_separates 3 (events (fst (downloadDrugWebId getTextURL name_lines load_obj)))"
proof (cases "loadDrugList_from name_lines")
  case (Inl e)
  then show ?thesis by (simp add: downloadDrugWebId_def sleep_separates_def)
next
  case (Inr drugList)
  let ?s0 = "\<lparr>store = (case load_obj of Inl e \<Rightarrow> [] | Inr d \<Rightarrow> d), events = []\<rparr>"
  have r: "rate_scan 3 False False (events (fst (download_loop getTextURL drugList ?s0))) \<noteq> None"
    by (rule download_loop_rate) simp
  obtain s err where dl: "download_loop getTextURL drugList ?s0 = (s, err)"
    by (cases "download_loop getTextURL drugList ?s0")
  from r dl have "rate_scan 3 False False (events s) \<noteq> None" by simp
  then show ?thesis
    using Inr dl
    by (cases err) (auto simp: downloadDrugWebId_def sleep_separates_def log_event_def rate_scan_append)
qed

lemma interaction_step_rate:
  "rate_scan 4 True False (events s) = Some False \<Longrightarrow>
   rate_scan 4 True False (events (interaction_step browser ids cur line s)) = Some False"
  unfolding interaction_step_def interaction_try_def
  by (auto simp: Let_def log_event_def rate_scan_append save_if_tenth_def
      split: sum.splits prod.splits if_splits)

lemma interaction_loop_rate:
  "rate_scan 4 True False (events s) = Some False \<Longrightarrow>
   rate_scan 4 True False (events (interaction_loop browser ids cur ls s)) = Some False"
  by (induction ls arbitrary: s) (simp_all add: interaction_step_rate)

lemma answered_scan_append:
  "answered_scan browser n k xs = Some k' \<Longrightarrow>
   answered_scan browser n k (xs @ ys) = answered_scan browser n k' ys"
  by (induction browser n k xs rule: answered_scan.induct)
     (auto split: sum.splits if_splits)

lemma dict_has_map_of: "dict_has d k \<longleftrightarrow> map_of d k \<noteq> None"
  by (simp add: dict_has_def map_of_eq_None_iff)

lemma interaction_step_valid_pair:
  assumes parts: "split_chr CHR '','' (lower (strip line)) = parts" "2 \<le> length parts"
    and pair: "srt (strip (parts ! 0)) (strip (parts ! 1)) = (d1, d2)"
    and ids: "map_of ids d1 = Some w1" "map_of ids d2 = Some w2"
    and new: "\<not> dict_has cur (d1 @ '','' @ d2)"
  shows "interaction_step browser ids cur line s =
     (case browser (requests_made s) (INTER_PREF @ w1 @ '','' @ w2) of
        Inl e \<Rightarrow> s\<lparr>events := events s @ [Request (INTER_PREF @ w1 @ '','' @ w2), Printed e]\<rparr>
      | Inr html \<Rightarrow>
          save_if_tenth (s\<lparr>store := dict_set (store s) (d1 @ '','' @ d2) html,
                            events := events s @ [Request (INTER_PREF @ w1 @ '','' @ w2), Sleep 4]\<rparr>))"
proof -
  have has: "dict_has ids d1" "dict_has ids d2"
    using ids by (simp_all add: dict_has_map_of)
  have len: "\<not> length parts < 2" using parts(2) by simp
  have pair': "srt (strip (parts ! 0)) (strip (parts ! Suc 0)) = (d1, d2)"
    using pair by simp
  have new': "\<not> dict_has cur (d1 @ CHR '','' # d2)"
    using new by simp
  show ?thesis
  proof (cases "browser (requests_made s) (INTER_PREF @ w1 @ '','' @ w2)")
    case (Inl e)
    then show ?thesis
      unfolding interaction_step_def interaction_try_def
      by (simp add: parts(1) len pair' has new' dict_get_def ids log_event_def Let_def)
  next
    case (Inr html)
    then show ?thesis
      unfolding interaction_step_def interaction_try_def
      by (simp add: parts(1) len pair' has new' dict_get_def ids log_event_def Let_def)
  qed
qed

lemma interaction_step_scan:
  assumes "answered_scan browser 4 0 (events s) = Some (requests_made s)"
  shows "answered_scan browser 4 0 (events (interaction_step browser ids cur line s))
     = Some (requests_made (interaction_step browser ids cur line s))"
  using assms
  unfolding interaction_step_def interaction_try_def
  by (auto simp: Let_def log_event_def save_if_tenth_def answered_scan_append requests_made_def
      split: sum.splits prod.splits if_splits)

lemma interaction_loop_scan:
  "answered_scan browser 4 0 (events s) = Some (requests_made s) \<Longrightarrow>
   answered_scan browser 4 0 (events (interaction_loop browser ids cur ls s))
     = Some (requests_made (interaction_loop browser ids cur ls s))"
  by (induction ls arbitrary: s) (simp_all add: interaction_step_scan)

text \<open>
  Claim C7, amended. In \<^verbatim>\<open>downloadDrugWebId\<close> a sleep of 3 seconds separates every two
  consecutive requests. In \<^verbatim>\<open>getInteractions\<close> every request that was answered is
  followed at once by a sleep of 4 seconds, and there is no other sleep; a request whose
  page load raised is followed at once by the handler's print and then by the next line,
  with no sleep. For a line that names a known pair not yet stored, the iteration is
  exactly that: the request, then the sleep and the stored page when the browser answers,
  or the print when it raises.
\<close>

theorem sleep_after_each_answered_request:
  "sleep_separates 3 (events (fst (downloadDrugWebId getTextURL name_lines load_obj))) \<and>
   (\<forall>s. getInteractions browser load_obj' web_id_lines prediction_lines = Inr s \<longrightarrow>
      sleep_or_failure_separates 4 (events s) \<and> sleeps_follow_answers browser 4 (events s)) \<and>
   (split_chr CHR '','' (lower (strip line)) = parts \<and> 2 \<le> length parts \<and>
    srt (strip (parts ! 0)) (strip (parts ! 1)) = (d1, d2) \<and>
    map_of ids d1 = Some w1 \<and> map_of ids d2 = Some w2 \<and> \<not> dict_has cur (d1 @ '','' @ d2) \<longrightarrow>
      interaction_step browser ids cur line st =
        (case browser (requests_made st) (INTER_PREF @ w1 @ '','' @ w2) of
           Inl e \<Rightarrow>
             st\<lparr>events := events st @ [Request (INTER_PREF @ w1 @ '','' @ w2), Printed e]\<rparr>
         | Inr html \<Rightarrow>
             save_if_tenth
               (st\<lparr>store := dict_set (store st) (d1 @ '','' @ d2) html,
                    events := events st @ [Request (INTER_PREF @ w1 @ '','' @ w2), Sleep 4]\<rparr>)))"
proof (intro conjI allI impI)
  show "sleep_separates 3 (events (fst (downloadDrugWebId getTextURL name_lines load_obj)))"
    by (rule downloadDrugWebId_rate)
next
  fix s
  assume g: "getInteractions browser load_obj' web_id_lines prediction_lines = Inr s"
  then obtain ids where ids: "load_web_ids [] web_id_lines = Inr ids"
    by (auto simp: getInteractions_def split: sum.splits)
  let ?d = "case load_obj' of Inl e \<Rightarrow> [] | Inr d \<Rightarrow> d"
  let ?s = "interaction_loop browser ids ?d prediction_lines \<lparr>store = ?d, events = []\<rparr>"
  have s: "s = log_event (Saved (store ?s)) ?s"
    using g ids by (simp add: getInteractions_def Let_def)
  have "rate_scan 4 True False (events ?s) = Some False"
    by (rule interaction_loop_rate) simp
  then show "sleep_or_failure_separates 4 (events s)"
    by (simp add: s sleep_or_failure_separates_def log_event_def rate_scan_append)
  have "answered_scan browser 4 0 (events ?s) = Some (requests_made ?s)"
    by (rule interaction_loop_scan) (simp add: requests_made_def)
  then show "sleeps_follow_answers browser 4 (events s)"
    by (simp add: s sleeps_follow_answers_def log_event_def answered_scan_append)
next
  assume "split_chr CHR '','' (lower (strip line)) = parts \<and> 2 \<le> length parts \<and>
    srt (strip (parts ! 0)) (strip (parts ! 1)) = (d1, d2) \<and>
    map_of ids d1 = Some w1 \<and> map_of ids d2 = Some w2 \<and> \<not> dict_has cur (d1 @ '','' @ d2)"
  then show "interaction_step browser ids cur line st =
        (case browser (requests_made st) (INTER_PREF @ w1 @ '','' @ w2) of
           Inl e \<Rightarrow>
             st\<lparr>events := events st @ [Request (INTER_PREF @ w1 @ '','' @ w2), Printed e]\<rparr>
         | Inr html \<Rightarrow>
             save_if_tenth
               (st\<lparr>store := dict_set (store st) (d1 @ '','' @ d2) html,
                    events := events st @ [Request (INTER_PREF @ w1 @ '','' @ w2), Sleep 4]\<rparr>))"
    using interaction_step_valid_pair[of line parts d1 d2 ids w1 w2 cur browser st] by blast
qed

theorem sleep_after_each_answered_request_witness:
  "sleep_separates 3 (events (fst (downloadDrugWebId
       (\<lambda>n u. if n = 1 then Inl WebDriverException else Inr ''[]'')
       [''1'' @ [CHR 0x09] @ ''Aspirin'', ''2'' @ [CHR 0x09] @ ''Warfarin''] (Inl KeyError)))) \<and>
   getInteractions (\<lambda>n u. if n = 0 then Inl WebDriverException else Inr ''body'') (Inl KeyError)
        [''a||1,2'', ''b||3,4'', ''c||5,6''] [''b,a'', ''c,a'']
     = Inr \<lparr>store = [(''a,c'', ''body'')],
            events = [Request (INTER_PREF @ ''1-2,3-4''), Printed WebDriverException,
                      Request (INTER_PREF @ ''1-2,5-6''), Sleep 4,
                      Saved [(''a,c'', ''body'')]]\<rparr> \<and>
   sleeps_follow_answers (\<lambda>n u. if n = 0 then Inl WebDriverException else Inr ''body'') 4
     [Request (INTER_PREF @ ''1-2,3-4''), Printed WebDriverException,
      Request (INTER_PREF @ ''1-2,5-6''), Sleep 4, Saved [(''a,c'', ''body'')]] \<and>
   interaction_step (\<lambda>n u. if n = 0 then Inl WebDriverException else Inr ''body'')
       [(''a'', ''1-2''), (''b'', ''3-4''), (''c'', ''5-6'')] [] ''c,a''
       \<lparr>store = [], events = [Request (INTER_PREF @ ''1-2,3-4''), Printed WebDriverException]\<rparr>
     = \<lparr>store = [(''a,c'', ''body'')],
        events = [Request (INTER_PREF @ ''1-2,3-4''), Printed WebDriverException,
                  Request (INTER_PREF @ ''1-2,5-6''), Sleep 4]\<rparr>"
proof -
  let ?B = "\<lambda>(n::nat) (u::string). if n = 0 then Inl WebDriverException else Inr ''body''"
  let ?ids = "[(''a'', ''1-2''), (''b'', ''3-4''), (''c'', ''5-6'')]"
  let ?st = "\<lparr>store = [], events = [Request (INTER_PREF @ ''1-2,3-4''), Printed WebDriverException]\<rparr>"
  let ?fin = "\<lparr>store = [(''a,c'', ''body'')],
            events = [Request (INTER_PREF @ ''1-2,3-4''), Printed WebDriverException,
                      Request (INTER_PREF @ ''1-2,5-6''), Sleep 4,
                      Saved [(''a,c'', ''body'')]]\<rparr>"
  note inst = sleep_after_each_answered_request[of
       "\<lambda>n u. if n = 1 then Inl WebDriverException else Inr ''[]''"
       "[''1'' @ [CHR 0x09] @ ''Aspirin'', ''2'' @ [CHR 0x09] @ ''Warfarin'']" "Inl KeyError"
       ?B "Inl KeyError" "[''a||1,2'', ''b||3,4'', ''c||5,6'']" "[''b,a'', ''c,a'']"
       "''c,a''" "[''c'', ''a'']" "''a''" "''c''" ?ids "''1-2''" "''5-6''" "[]" ?st]
  have g: "getInteractions ?B (Inl KeyError) [''a||1,2'', ''b||3,4'', ''c||5,6''] [''b,a'', ''c,a'']
      = Inr ?fin"
    by (simp add: getInteractions_def interaction_step_def interaction_try_def Let_def
        strip_def is_space_def lower_def lower_chr_def srt_def dict_has_def dict_get_def
        log_event_def requests_made_def save_if_tenth_def)
  from inst g have follow: "sleeps_follow_answers ?B 4 (events ?fin)" by blast
  have guards: "split_chr CHR '','' (lower (strip ''c,a'')) = [''c'', ''a''] \<and>
      2 \<le> length [''c'', ''a''] \<and>
      srt (strip ([''c'', ''a''] ! 0)) (strip ([''c'', ''a''] ! 1)) = (''a'', ''c'') \<and>
      map_of ?ids ''a'' = Some ''1-2'' \<and> map_of ?ids ''c'' = Some ''5-6'' \<and>
      \<not> dict_has [] (''a'' @ '','' @ ''c'')"
    by (simp add: strip_def is_space_def lower_def lower_chr_def srt_def dict_has_def)
  from inst guards have "interaction_step ?B ?ids [] ''c,a'' ?st =
        (case ?B (requests_made ?st) (INTER_PREF @ ''1-2'' @ '','' @ ''5-6'') of
           Inl e \<Rightarrow>
             ?st\<lparr>events := events ?st @ [Request (INTER_PREF @ ''1-2'' @ '','' @ ''5-6''), Printed e]\<rparr>
         | Inr html \<Rightarrow>
             save_if_tenth
               (?st\<lparr>store := dict_set (store ?st) (''a'' @ '','' @ ''c'') html,
                    events := events ?st @ [Request (INTER_PREF @ ''1-2'' @ '','' @ ''5-6''), Sleep 4]\<rparr>))"
    by blast
  then have step: "interaction_step ?B ?ids [] ''c,a'' ?st
     = \<lparr>store = [(''a,c'', ''body'')],
        events = [Request (INTER_PREF @ ''1-2,3-4''), Printed WebDriverException,
                  Request (INTER_PREF @ ''1-2,5-6''), Sleep 4]\<rparr>"
    by (simp add: requests_made_def save_if_tenth_def log_event_def)
  from inst have dl: "sleep_separates 3 (events (fst (downloadDrugWebId
       (\<lambda>n u. if n = 1 then Inl WebDriverException else Inr ''[]'')
       [''1'' @ [CHR 0x09] @ ''Aspirin'', ''2'' @ [CHR 0x09] @ ''Warfarin''] (Inl KeyError))))"
    by blast
  from dl g follow step show ?thesis by simp
qed

text \<open>
  Claim C7 as stated fails for \<^verbatim>\<open>getInteractions\<close>: when the first page load raises,
  the second request follows the first with no sleep between them.
\<close>

theorem sleep_missing_after_failed_request_counterexample:
  "map_sum id (\<lambda>s. sleep_separates 4 (events s))
     (getInteractions (\<lambda>n u. if n = 0 then Inl WebDriverException else Inr ''body'') (Inl KeyError)
        [''a||1,2'', ''b||3,4'', ''c||5,6''] [''b,a'', ''c,a''])
   = Inr False"
  by (simp add: getInteractions_def interaction_step_def interaction_try_def Let_def
      strip_def is_space_def lower_def lower_chr_def srt_def dict_has_def dict_get_def
      log_event_def requests_made_def save_if_tenth_def INTER_PREF_def sleep_separates_def)

end
